theory Spec2Isabelle
  imports Main "HOL-Library.Word"
begin

section \<open>Python strings and paths\<close>

text \<open>
  A Python \<open>str\<close> is modelled as a \<open>string\<close> whose characters are the code points
  below 256. \<open>str.lower\<close> maps every code point on its own in that range: the ASCII
  capitals and the Latin-1 capitals (192 to 222, the multiplication sign 215 apart) move
  up by 32, everything else stays.
\<close>

definition lower_char :: "char \<Rightarrow> char" where
  "lower_char c =
     (let n = (of_char c :: nat)
      in if (65 \<le> n \<and> n \<le> 90) \<or> (192 \<le> n \<and> n \<le> 222 \<and> n \<noteq> 215)
         then char_of (n + 32) else c)"

definition lower :: "string \<Rightarrow> string" where
  "lower s = map lower_char s"

definition endswith :: "string \<Rightarrow> string \<Rightarrow> bool" where
  "endswith s suffix =
     (length suffix \<le> length s \<and> drop (length s - length suffix) s = suffix)"

definition startswith :: "string \<Rightarrow> string \<Rightarrow> bool" where
  "startswith s prefix = (take (length prefix) s = prefix)"

text \<open>\<open>str.rfind\<close> for a one-character needle: the highest index, or \<open>-1\<close>.\<close>

fun rfind :: "string \<Rightarrow> char \<Rightarrow> int" where
  "rfind [] c = -1"
| "rfind (x # xs) c =
     (let r = rfind xs c
      in if 0 \<le> r then r + 1 else if x = c then 0 else -1)"

text \<open>
  \<open>os.path.join(a, b)\<close> of \<open>posixpath\<close>, for one component \<open>b\<close>: an absolute \<open>b\<close>
  replaces \<open>a\<close>; a separator is added unless \<open>a\<close> is empty or ends with one.
\<close>

definition join :: "string \<Rightarrow> string \<Rightarrow> string" where
  "join a b =
     (if startswith b ''/'' then b
      else if a = [] \<or> endswith a ''/'' then a @ b
      else a @ ''/'' @ b)"

text \<open>
  \<open>os.path.splitext(p)\<close> of \<open>posixpath\<close>: the extension starts at the last dot of the
  last component, unless that component has only dots before it (leading dots belong to
  the name). The source's \<open>while\<close> loop over \<open>filenameIndex\<close> returns at the first
  character that is not a dot; \<open>list_ex\<close> over the same slice says whether it does.
\<close>

definition splitext :: "string \<Rightarrow> string \<times> string" where
  "splitext p =
     (let sepIndex = rfind p (CHR ''/'');
          dotIndex = rfind p (CHR ''.'')
      in if dotIndex > sepIndex \<and>
            list_ex (\<lambda>ch. ch \<noteq> CHR ''.'')
              (take (nat (dotIndex - (sepIndex + 1))) (drop (nat (sepIndex + 1)) p))
         then (take (nat dotIndex) p, drop (nat dotIndex) p)
         else (p, []))"

section \<open>The imaging library\<close>

text \<open>
  The program draws through Pillow. An image has a mode, a size and one pixel of four
  bytes per position (the fourth byte is the alpha band of an \<open>RGBA\<close> image and padding
  in an \<open>RGB\<close> one). Only positions inside the size are part of the image.
\<close>

datatype error = ValueError string | OSError string

datatype mode = RGBA | RGB

type_synonym byte = "8 word"

type_synonym pixel = "byte \<times> byte \<times> byte \<times> byte"

record image =
  mode :: mode
  width :: int
  height :: int
  pixels :: "int \<times> int \<Rightarrow> pixel"

definition alpha :: "pixel \<Rightarrow> byte" where
  "alpha p = (case p of (r, g, b, a) \<Rightarrow> a)"

definition inside :: "image \<Rightarrow> int \<times> int \<Rightarrow> bool" where
  "inside im p = (0 \<le> fst p \<and> fst p < width im \<and> 0 \<le> snd p \<and> snd p < height im)"

text \<open>A colour given as a tuple of Python ints: each band is clipped to a byte, and a
  three-band colour is opaque.\<close>

definition CLIP8 :: "int \<Rightarrow> byte" where
  "CLIP8 v = (if v \<le> 0 then 0 else if v < 256 then word_of_int v else 255)"

definition getink3 :: "int \<times> int \<times> int \<Rightarrow> pixel" where
  "getink3 c = (case c of (r, g, b) \<Rightarrow> (CLIP8 r, CLIP8 g, CLIP8 b, 255))"

definition getink4 :: "int \<times> int \<times> int \<times> int \<Rightarrow> pixel" where
  "getink4 c = (case c of (r, g, b, a) \<Rightarrow> (CLIP8 r, CLIP8 g, CLIP8 b, CLIP8 a))"

text \<open>\<open>Image.new(mode, size, color)\<close>: a negative width or height is refused, zero is not.\<close>

definition Image_new :: "mode \<Rightarrow> int \<times> int \<Rightarrow> pixel \<Rightarrow> error + image" where
  "Image_new m sz ink =
     (if fst sz < 0 \<or> snd sz < 0 then Inl (ValueError ''Width and height must be >= 0'')
      else Inr \<lparr>mode = m, width = fst sz, height = snd sz, pixels = (\<lambda>p. ink)\<rparr>)"

text \<open>The blend of the paste routines: \<open>in1\<close> weighted by \<open>255 - m\<close>, \<open>in2\<close> by
  \<open>m\<close>, divided by 255 with rounding.\<close>

definition DIV255 :: "nat \<Rightarrow> nat" where
  "DIV255 a = (let tmp = a + 128 in (tmp div 256 + tmp) div 256)"

definition BLEND :: "byte \<Rightarrow> byte \<Rightarrow> byte \<Rightarrow> byte" where
  "BLEND m in1 in2 = of_nat (DIV255 (unat in1 * (255 - unat m) + unat in2 * unat m))"

definition blend_pixel :: "byte \<Rightarrow> pixel \<Rightarrow> pixel \<Rightarrow> pixel" where
  "blend_pixel a out inp =
     (case out of (r1, g1, b1, a1) \<Rightarrow>
        (case inp of (r2, g2, b2, a2) \<Rightarrow>
           (BLEND a r1 r2, BLEND a g1 g2, BLEND a b1 b2, BLEND a a1 a2)))"

text \<open>\<open>im.convert(mode)\<close> between the two modes: an \<open>RGB\<close> image becomes opaque.\<close>

definition convert :: "image \<Rightarrow> mode \<Rightarrow> image" where
  "convert im m =
     (if mode im = m then im
      else im\<lparr>mode := m,
              pixels := (\<lambda>p. case pixels im p of (r, g, b, a) \<Rightarrow> (r, g, b, 255))\<rparr>)"

text \<open>
  The region a paste copies, as its width and height: the source's size at \<open>box\<close>,
  clipped to the destination on the left and top, then on the right and bottom.
\<close>

definition paste_region :: "image \<Rightarrow> image \<Rightarrow> int \<times> int \<Rightarrow> int \<times> int" where
  "paste_region self im box =
     (let xsize = (if fst box < 0 then width im + fst box else width im);
          dx0 = (if fst box < 0 then 0 else fst box);
          ysize = (if snd box < 0 then height im + snd box else height im);
          dy0 = (if snd box < 0 then 0 else snd box)
      in (if dx0 + xsize > width self then width self - dx0 else xsize,
          if dy0 + ysize > height self then height self - dy0 else ysize))"

text \<open>
  \<open>self.paste(im, box, mask)\<close> with a two-element \<open>box\<close>: the source is converted to the
  destination's mode when the modes differ and the mask must be as large as the source.
  An empty region is left alone, before the mask is looked at. Otherwise the mask must have
  an alpha band (an \<open>RGB\<close> mask is refused), and every destination pixel under the source
  is blended with the source pixel by the mask's alpha at that position.
\<close>

definition paste :: "image \<Rightarrow> image \<Rightarrow> int \<times> int \<Rightarrow> image \<Rightarrow> error + image" where
  "paste self im box msk =
     (let im' = (if mode self \<noteq> mode im \<and> \<not> (mode self = RGB \<and> mode im = RGBA)
                 then convert im (mode self) else im)
      in if width msk \<noteq> width im \<or> height msk \<noteq> height im
         then Inl (ValueError ''images do not match'')
         else if fst (paste_region self im box) \<le> 0 \<or> snd (paste_region self im box) \<le> 0
         then Inr self
         else if mode msk \<noteq> RGBA then Inl (ValueError ''bad transparency mask'')
         else Inr (self\<lparr>pixels := (\<lambda>p.
                if inside self p \<and> inside im (fst p - fst box, snd p - snd box)
                then blend_pixel (alpha (pixels msk (fst p - fst box, snd p - snd box)))
                       (pixels self p) (pixels im' (fst p - fst box, snd p - snd box))
                else pixels self p)\<rparr>))"

section \<open>The font collaborator\<close>

text \<open>
  A loaded font measures a character (\<open>getbbox\<close>: left, top, right, bottom) and rasterises
  it. The rasteriser is outside the program: \<open>covers\<close> says which positions, relative to
  the drawing origin, it touches, and \<open>shade\<close> gives the pixel it leaves there from the
  ink, the image's mode and the pixel it found.
\<close>

record font =
  getbbox :: "char \<Rightarrow> int \<times> int \<times> int \<times> int"
  covers :: "char \<Rightarrow> int \<times> int \<Rightarrow> bool"
  shade :: "char \<Rightarrow> int \<times> int \<Rightarrow> pixel \<Rightarrow> mode \<Rightarrow> pixel \<Rightarrow> pixel"

text \<open>\<open>ImageDraw.Draw(image).text(xy, char, font=font, fill=fill)\<close>: draws in place,
  inside the image only.\<close>

definition draw_text ::
  "image \<Rightarrow> int \<times> int \<Rightarrow> char \<Rightarrow> font \<Rightarrow> int \<times> int \<times> int \<Rightarrow> image" where
  "draw_text img xy ch fnt fill =
     img\<lparr>pixels := (\<lambda>p.
        if inside img p \<and> covers fnt ch (fst p - fst xy, snd p - snd xy)
        then shade fnt ch (fst p - fst xy, snd p - snd xy) (getink3 fill) (mode img)
               (pixels img p)
        else pixels img p)\<rparr>"

section \<open>The world the program runs in\<close>

text \<open>
  The state the program changes: the image files on disk, by path, and the lines printed.
  The environment answers what the program cannot decide: whether the font loads, whether
  the directory can be made, whether a file can be written.
\<close>

record world =
  files :: "string \<rightharpoonup> image"
  stdout :: "string list"

record env =
  truetype :: "string \<Rightarrow> int \<Rightarrow> error + font"
  makedirs :: "string \<Rightarrow> error option"
  write_error :: "string \<Rightarrow> image \<Rightarrow> error option"

definition print :: "string \<Rightarrow> world \<Rightarrow> world" where
  "print line w = w\<lparr>stdout := stdout w @ [line]\<rparr>"

text \<open>
  \<open>image.save(fp)\<close> with a path: the format comes from the lowered extension of the path
  and an unknown extension is a \<open>ValueError\<close>. The paths of this program end in
  \<open>.png\<close> in some letter case, so their extension is that or empty; \<open>.png\<close> is the one
  registered extension the model needs.
\<close>

definition save :: "env \<Rightarrow> image \<Rightarrow> string \<Rightarrow> world \<Rightarrow> (error + unit) \<times> world" where
  "save e img fp w =
     (let ext = lower (snd (splitext fp))
      in if ext \<noteq> ''.png'' then (Inl (ValueError (''unknown file extension: '' @ ext)), w)
         else (case write_error e fp img of
                 Some err \<Rightarrow> (Inl err, w)
               | None \<Rightarrow> (Inr (), w\<lparr>files := (files w)(fp \<mapsto> img)\<rparr>)))"

section \<open>The program\<close>

definition warning :: "string \<Rightarrow> string" where
  "warning name =
     CHR 0x1B # ''[1;33m[Warning]: The spritesheet name \"'' @ name @
     ''\" does not have a .png extension. Using \"'' @ name @ ''.png\" instead.'' @
     CHR 0x1B # ''[0m''"

definition validate_spritesheet_name :: "string \<Rightarrow> world \<Rightarrow> string \<times> world" where
  "validate_spritesheet_name name w =
     (if \<not> endswith (lower name) ''.png''
      then (name @ ''.png'', print (warning name) w)
      else (name, w))"

record render_request =
  font_path :: string
  output_folder :: string
  characters :: string
  font_size :: int
  padding :: "int \<times> int \<times> int \<times> int"
  bg_type :: string
  export_type :: string
  spritesheet_name :: string
  bg_color :: "int \<times> int \<times> int"
  text_color :: "int \<times> int \<times> int"

definition padding_left :: "render_request \<Rightarrow> int" where
  "padding_left rq = (case padding rq of (l, t, r, b) \<Rightarrow> l)"

definition padding_top :: "render_request \<Rightarrow> int" where
  "padding_top rq = (case padding rq of (l, t, r, b) \<Rightarrow> t)"

definition padding_right :: "render_request \<Rightarrow> int" where
  "padding_right rq = (case padding rq of (l, t, r, b) \<Rightarrow> r)"

definition padding_bottom :: "render_request \<Rightarrow> int" where
  "padding_bottom rq = (case padding rq of (l, t, r, b) \<Rightarrow> b)"

text \<open>\<open>char_width, char_height = font.getbbox(char)[2:]\<close>\<close>

definition char_width :: "font \<Rightarrow> char \<Rightarrow> int" where
  "char_width fnt ch = (case getbbox fnt ch of (x0, y0, x1, y1) \<Rightarrow> x1)"

definition char_height :: "font \<Rightarrow> char \<Rightarrow> int" where
  "char_height fnt ch = (case getbbox fnt ch of (x0, y0, x1, y1) \<Rightarrow> y1)"

definition img_width :: "font \<Rightarrow> render_request \<Rightarrow> char \<Rightarrow> int" where
  "img_width fnt rq ch = char_width fnt ch + padding_left rq + padding_right rq"

definition img_height :: "font \<Rightarrow> render_request \<Rightarrow> char \<Rightarrow> int" where
  "img_height fnt rq ch = char_height fnt ch + padding_top rq + padding_bottom rq"

text \<open>The canvas of one character, allocated by the background mode.\<close>

definition new_canvas :: "render_request \<Rightarrow> int \<times> int \<Rightarrow> error + image" where
  "new_canvas rq sz =
     (if bg_type rq = ''transparent'' then Image_new RGBA sz (getink4 (0, 0, 0, 0))
      else Image_new RGB sz (getink3 (bg_color rq)))"

text \<open>Measuring, allocating and drawing one character (the first half of the loop's body).\<close>

definition glyph_canvas :: "font \<Rightarrow> render_request \<Rightarrow> char \<Rightarrow> error + image" where
  "glyph_canvas fnt rq ch =
     (case new_canvas rq (img_width fnt rq ch, img_height fnt rq ch) of
        Inl err \<Rightarrow> Inl err
      | Inr canvas \<Rightarrow>
          Inr (draw_text canvas (padding_left rq, padding_top rq) ch fnt (text_color rq)))"

type_synonym accum = "image list \<times> int \<times> int"

text \<open>The body of the loop over the characters: the canvas is saved at once, or retained
  with the running totals; the accumulator is \<open>images\<close>, \<open>max_height\<close>,
  \<open>total_width\<close>.\<close>

definition render_char ::
  "env \<Rightarrow> font \<Rightarrow> render_request \<Rightarrow> char \<Rightarrow> accum \<Rightarrow> world \<Rightarrow> (error + accum) \<times> world" where
  "render_char e fnt rq ch acc w =
     (case glyph_canvas fnt rq ch of
        Inl err \<Rightarrow> (Inl err, w)
      | Inr img \<Rightarrow>
          if export_type rq = ''separate''
          then (case save e img (join (output_folder rq) (ch # ''.png'')) w of
                  (Inl err, w') \<Rightarrow> (Inl err, w')
                | (Inr u, w') \<Rightarrow> (Inr acc, w'))
          else (case acc of (images, max_height, total_width) \<Rightarrow>
                  (Inr (images @ [img], max max_height (img_height fnt rq ch),
                        total_width + img_width fnt rq ch), w)))"

fun render_chars ::
  "env \<Rightarrow> font \<Rightarrow> render_request \<Rightarrow> string \<Rightarrow> accum \<Rightarrow> world \<Rightarrow> (error + accum) \<times> world" where
  "render_chars e fnt rq [] acc w = (Inr acc, w)"
| "render_chars e fnt rq (ch # chs) acc w =
     (case render_char e fnt rq ch acc w of
        (Inl err, w') \<Rightarrow> (Inl err, w')
      | (Inr acc', w') \<Rightarrow> render_chars e fnt rq chs acc' w')"

text \<open>The sheet: one \<open>RGBA\<close> canvas of the accumulated size, then every retained canvas
  pasted with itself as the mask, left to right.\<close>

definition new_spritesheet :: "render_request \<Rightarrow> int \<times> int \<Rightarrow> error + image" where
  "new_spritesheet rq sz =
     Image_new RGBA sz
       (if bg_type rq = ''transparent'' then getink4 (0, 0, 0, 0) else getink3 (bg_color rq))"

fun paste_images :: "image \<Rightarrow> int \<Rightarrow> image list \<Rightarrow> error + image" where
  "paste_images spritesheet x_offset [] = Inr spritesheet"
| "paste_images spritesheet x_offset (img # imgs) =
     (case paste spritesheet img (x_offset, 0) img of
        Inl err \<Rightarrow> Inl err
      | Inr spritesheet' \<Rightarrow> paste_images spritesheet' (x_offset + width img) imgs)"

definition export_spritesheet ::
  "env \<Rightarrow> render_request \<Rightarrow> string \<Rightarrow> accum \<Rightarrow> world \<Rightarrow> (error + unit) \<times> world" where
  "export_spritesheet e rq name acc w =
     (case acc of (images, max_height, total_width) \<Rightarrow>
        (case new_spritesheet rq (total_width, max_height) of
           Inl err \<Rightarrow> (Inl err, w)
         | Inr spritesheet \<Rightarrow>
             (case paste_images spritesheet 0 images of
                Inl err \<Rightarrow> (Inl err, w)
              | Inr sheet \<Rightarrow> save e sheet (join (output_folder rq) name) w)))"

text \<open>What follows the loop: the sheet when the export type asks for one and a canvas was
  retained, then the closing message.\<close>

definition finish ::
  "env \<Rightarrow> render_request \<Rightarrow> string \<Rightarrow> accum \<Rightarrow> world \<Rightarrow> (error + unit) \<times> world" where
  "finish e rq name acc w =
     (if export_type rq = ''spritesheet'' \<and> fst acc \<noteq> []
      then (case export_spritesheet e rq name acc w of
              (Inl err, w') \<Rightarrow> (Inl err, w')
            | (Inr u, w') \<Rightarrow> (Inr (), print ''Rendering complete!'' w'))
      else (Inr (), print ''Rendering complete!'' w))"

definition render_font :: "env \<Rightarrow> render_request \<Rightarrow> world \<Rightarrow> (error + unit) \<times> world" where
  "render_font e rq w =
     (case (if export_type rq = ''spritesheet''
            then validate_spritesheet_name (spritesheet_name rq) w
            else (spritesheet_name rq, w)) of
        (name, w1) \<Rightarrow>
          (case truetype e (font_path rq) (font_size rq) of
             Inl err \<Rightarrow> (Inl err, w1)
           | Inr fnt \<Rightarrow>
               (case makedirs e (output_folder rq) of
                  Some err \<Rightarrow> (Inl err, w1)
                | None \<Rightarrow>
                    (case render_chars e fnt rq (characters rq) ([], 0, 0) w1 of
                       (Inl err, w2) \<Rightarrow> (Inl err, w2)
                     | (Inr acc, w2) \<Rightarrow> finish e rq name acc w2))))"

section \<open>Notions of the specification\<close>

text \<open>A filename ends in \<open>.png\<close> in some letter case: it ends with one of the eight
  spellings.\<close>

definition png_spellings :: "string list" where
  "png_spellings =
     [''.png'', ''.pnG'', ''.pNg'', ''.pNG'', ''.Png'', ''.PnG'', ''.PNg'', ''.PNG'']"

definition ends_in_png_any_case :: "string \<Rightarrow> bool" where
  "ends_in_png_any_case name = list_ex (endswith name) png_spellings"

text \<open>The pixel a fresh canvas is filled with, by the background mode.\<close>

definition background :: "render_request \<Rightarrow> pixel" where
  "background rq =
     (if bg_type rq = ''transparent'' then (0, 0, 0, 0) else getink3 (bg_color rq))"

text \<open>What a run adds to a world: files written over the old ones, lines printed after
  the old ones.\<close>

definition empty_world :: world where
  "empty_world = \<lparr>files = Map.empty, stdout = []\<rparr>"

definition extend :: "world \<Rightarrow> world \<Rightarrow> world" where
  "extend w d = \<lparr>files = files w ++ files d, stdout = stdout w @ stdout d\<rparr>"

text \<open>The drawn glyph region of a sheet whose first canvas starts at column \<open>x0\<close>: the
  positions inside some character's canvas that the rasteriser touches there.\<close>

fun drawn :: "font \<Rightarrow> render_request \<Rightarrow> string \<Rightarrow> int \<Rightarrow> int \<times> int \<Rightarrow> bool" where
  "drawn fnt rq [] x0 p = False"
| "drawn fnt rq (ch # chs) x0 p =
     ((0 \<le> fst p - x0 \<and> fst p - x0 < img_width fnt rq ch \<and>
       0 \<le> snd p \<and> snd p < img_height fnt rq ch \<and>
       covers fnt ch (fst p - x0 - padding_left rq, snd p - padding_top rq))
      \<or> drawn fnt rq chs (x0 + img_width fnt rq ch) p)"

text \<open>The bands of a pixel as numbers.\<close>

definition bands :: "pixel \<Rightarrow> int \<times> int \<times> int \<times> int" where
  "bands p = (case p of (r, g, b, a) \<Rightarrow> (uint r, uint g, uint b, uint a))"

section \<open>Concrete inputs\<close>

text \<open>A font whose \<open>A\<close> is 5 by 7 and whose other glyphs are 3 by 9, drawing one dot of
  ink; an environment where everything succeeds; a request for the sheet of \<open>AB\<close>.\<close>

definition demo_font :: font where
  "demo_font =
     \<lparr>getbbox = (\<lambda>ch. if ch = CHR ''A'' then (0, 0, 5, 7) else (0, 0, 3, 9)),
      covers = (\<lambda>ch p. p = (1, 1)),
      shade = (\<lambda>ch p ink m old. ink)\<rparr>"

definition demo_env :: env where
  "demo_env =
     \<lparr>truetype = (\<lambda>path sz. Inr demo_font),
      makedirs = (\<lambda>path. None),
      write_error = (\<lambda>path img. None)\<rparr>"

definition demo_request :: render_request where
  "demo_request =
     \<lparr>font_path = ''font.ttf'', output_folder = ''out'', characters = ''AB'',
      font_size = 64, padding = (1, 2, 3, 4), bg_type = ''transparent'',
      export_type = ''spritesheet'', spritesheet_name = ''sheet'',
      bg_color = (255, 255, 255), text_color = (10, 20, 30)\<rparr>"


section \<open>The name validator\<close>

lemma of_char_lower_char:
  "(of_char (lower_char c) :: nat) =
     (let n = (of_char c :: nat)
      in if (65 \<le> n \<and> n \<le> 90) \<or> (192 \<le> n \<and> n \<le> 222 \<and> n \<noteq> 215) then n + 32 else n)"
  by (auto simp: lower_char_def Let_def)

lemma lower_char_eq_iff:
  "lower_char c = d \<longleftrightarrow> (of_char (lower_char c) :: nat) = of_char d"
  by auto

lemma char_eq_iff: "c = d \<longleftrightarrow> (of_char c :: nat) = of_char d"
  by auto

lemma lower_char_dot: "lower_char c = CHR ''.'' \<longleftrightarrow> c = CHR ''.''"
  unfolding lower_char_eq_iff of_char_lower_char char_eq_iff[of c]
  by (auto simp: Let_def)

lemma lower_char_p: "lower_char c = CHR ''p'' \<longleftrightarrow> c = CHR ''p'' \<or> c = CHR ''P''"
  unfolding lower_char_eq_iff of_char_lower_char char_eq_iff[of c]
  by (auto simp: Let_def)

lemma lower_char_n: "lower_char c = CHR ''n'' \<longleftrightarrow> c = CHR ''n'' \<or> c = CHR ''N''"
  unfolding lower_char_eq_iff of_char_lower_char char_eq_iff[of c]
  by (auto simp: Let_def)

lemma lower_char_g: "lower_char c = CHR ''g'' \<longleftrightarrow> c = CHR ''g'' \<or> c = CHR ''G''"
  unfolding lower_char_eq_iff of_char_lower_char char_eq_iff[of c]
  by (auto simp: Let_def)

lemma endswith_iff: "endswith s suffix \<longleftrightarrow> (\<exists>pre. s = pre @ suffix)"
proof
  assume "endswith s suffix"
  then have "s = take (length s - length suffix) s @ suffix"
    by (metis append_take_drop_id endswith_def)
  then show "\<exists>pre. s = pre @ suffix" ..
next
  assume "\<exists>pre. s = pre @ suffix"
  then show "endswith s suffix" by (auto simp: endswith_def)
qed

lemma lower_endswith_png:
  "endswith (lower name) ''.png'' \<longleftrightarrow> ends_in_png_any_case name"
proof -
  have "endswith (lower name) ''.png'' \<longleftrightarrow>
        (\<exists>pre a b c d. name = pre @ [a, b, c, d] \<and> lower_char a = CHR ''.'' \<and>
           lower_char b = CHR ''p'' \<and> lower_char c = CHR ''n'' \<and> lower_char d = CHR ''g'')"
  proof
    assume "endswith (lower name) ''.png''"
    then show "\<exists>pre a b c d. name = pre @ [a, b, c, d] \<and> lower_char a = CHR ''.'' \<and>
           lower_char b = CHR ''p'' \<and> lower_char c = CHR ''n'' \<and> lower_char d = CHR ''g''"
      unfolding endswith_iff lower_def
      by (auto simp: map_eq_append_conv map_eq_Cons_conv)
  next
    assume "\<exists>pre a b c d. name = pre @ [a, b, c, d] \<and> lower_char a = CHR ''.'' \<and>
           lower_char b = CHR ''p'' \<and> lower_char c = CHR ''n'' \<and> lower_char d = CHR ''g''"
    then obtain pre a b c d where "name = pre @ [a, b, c, d]" "lower_char a = CHR ''.''"
      "lower_char b = CHR ''p''" "lower_char c = CHR ''n''" "lower_char d = CHR ''g''"
      by blast
    then have "lower name = lower pre @ ''.png''" by (simp add: lower_def)
    then show "endswith (lower name) ''.png''" unfolding endswith_iff by blast
  qed
  also have "\<dots> \<longleftrightarrow> ends_in_png_any_case name"
    unfolding ends_in_png_any_case_def png_spellings_def lower_char_dot lower_char_p
      lower_char_n lower_char_g
    by (simp add: endswith_iff) blast
  finally show ?thesis .
qed

lemma ends_in_png_any_case_append: "ends_in_png_any_case (name @ ''.png'')"
  by (simp add: ends_in_png_any_case_def png_spellings_def endswith_def)

text \<open>
  C2. A filename that does not end in \<open>.png\<close> in any letter case comes back with
  \<open>.png\<close> appended once and one warning printed; a filename that does comes back as it
  is and nothing is printed. Either way the result ends in \<open>.png\<close> in some letter case.
\<close>

theorem validate_spritesheet_name_corrects:
  "(\<not> ends_in_png_any_case name \<longrightarrow>
      validate_spritesheet_name name w =
        (name @ ''.png'', w\<lparr>stdout := stdout w @ [warning name]\<rparr>)) \<and>
   (ends_in_png_any_case name \<longrightarrow> validate_spritesheet_name name w = (name, w)) \<and>
   ends_in_png_any_case (fst (validate_spritesheet_name name w))"
  by (simp add: validate_spritesheet_name_def lower_endswith_png print_def
      ends_in_png_any_case_append)

theorem validate_spritesheet_name_corrects_witness:
  "validate_spritesheet_name ''sheet'' empty_world =
     (''sheet.png'', empty_world\<lparr>stdout := [warning ''sheet'']\<rparr>) \<and>
   validate_spritesheet_name ''Sheet.PnG'' empty_world = (''Sheet.PnG'', empty_world)"
proof -
  have a: "\<not> ends_in_png_any_case ''sheet''"
    by (simp add: ends_in_png_any_case_def png_spellings_def endswith_def)
  have b: "ends_in_png_any_case ''Sheet.PnG''"
    by (simp add: ends_in_png_any_case_def png_spellings_def endswith_def)
  show ?thesis
    using a b validate_spritesheet_name_corrects [of "''sheet''" empty_world]
      validate_spritesheet_name_corrects [of "''Sheet.PnG''" empty_world]
    by (simp add: empty_world_def)
qed

section \<open>The imaging library\<close>

lemma BLEND_zero: "BLEND 0 d s = d"
proof -
  have "unat d < 256" using unsigned_less [of d] by simp
  then have "DIV255 (unat d * 255) = unat d"
    unfolding DIV255_def Let_def by arith
  then show ?thesis by (simp add: BLEND_def)
qed

lemma blend_pixel_zero: "blend_pixel 0 out inp = out"
  by (simp add: blend_pixel_def BLEND_zero split: prod.splits)

lemma CLIP8_zero: "CLIP8 0 = 0"
  by (simp add: CLIP8_def)

lemma getink4_zero: "getink4 (0, 0, 0, 0) = (0, 0, 0, 0)"
  by (simp add: getink4_def CLIP8_zero)

lemma uint_CLIP8: "0 \<le> v \<Longrightarrow> v \<le> 255 \<Longrightarrow> uint (CLIP8 v) = v"
  by (simp add: CLIP8_def uint_word_of_int)

lemma Image_new_Inr:
  "Image_new m sz ink = Inr img \<longleftrightarrow>
     0 \<le> fst sz \<and> 0 \<le> snd sz \<and>
     img = \<lparr>mode = m, width = fst sz, height = snd sz, pixels = (\<lambda>p. ink)\<rparr>"
  by (auto simp: Image_new_def)

lemma Image_new_Inl:
  "Image_new m sz ink = Inl err \<longleftrightarrow>
     (fst sz < 0 \<or> snd sz < 0) \<and> err = ValueError ''Width and height must be >= 0''"
  by (auto simp: Image_new_def)

section \<open>One character's canvas\<close>

lemma glyph_canvas_Inr:
  assumes "glyph_canvas fnt rq ch = Inr img"
  shows "width img = img_width fnt rq ch" and "height img = img_height fnt rq ch"
    and "0 \<le> width img" and "0 \<le> height img"
    and "mode img = (if bg_type rq = ''transparent'' then RGBA else RGB)"
  using assms
  by (auto simp: glyph_canvas_def new_canvas_def Image_new_def draw_text_def
      split: if_splits sum.splits)

lemma glyph_canvas_succeeds:
  "0 \<le> img_width fnt rq ch \<Longrightarrow> 0 \<le> img_height fnt rq ch \<Longrightarrow>
   \<exists>img. glyph_canvas fnt rq ch = Inr img"
  by (auto simp: glyph_canvas_def new_canvas_def Image_new_def)

lemma glyph_canvas_undrawn:
  assumes "glyph_canvas fnt rq ch = Inr img"
    and "\<not> (inside img p \<and> covers fnt ch (fst p - padding_left rq, snd p - padding_top rq))"
  shows "pixels img p = background rq"
  using assms
  by (auto simp: glyph_canvas_def new_canvas_def Image_new_def draw_text_def inside_def
      background_def getink4_zero split: if_splits sum.splits)

section \<open>The loop over the characters\<close>

lemma render_chars_retains:
  assumes "export_type rq \<noteq> ''separate''"
    and "render_chars e fnt rq chs (images, mh, tw) w = (Inr (images', mh', tw'), w')"
  shows "w' = w \<and>
         (\<exists>new. images' = images @ new \<and>
            list_all2 (\<lambda>ch img. glyph_canvas fnt rq ch = Inr img) chs new) \<and>
         tw' = tw + sum_list (map (img_width fnt rq) chs) \<and>
         mh' = Max (insert mh (set (map (img_height fnt rq) chs)))"
  using assms(2)
proof (induction chs arbitrary: images mh tw)
  case Nil
  then show ?case by simp
next
  case (Cons ch chs)
  from Cons.prems obtain img where
    g: "glyph_canvas fnt rq ch = Inr img" and
    rest: "render_chars e fnt rq chs
             (images @ [img], max mh (img_height fnt rq ch), tw + img_width fnt rq ch) w
           = (Inr (images', mh', tw'), w')"
    using assms(1)
    by (auto simp: render_char_def split: sum.splits prod.splits if_splits)
  from Cons.IH [OF rest] obtain new where
    w: "w' = w" and
    new: "images' = (images @ [img]) @ new"
      "list_all2 (\<lambda>ch img. glyph_canvas fnt rq ch = Inr img) chs new" and
    tw: "tw' = tw + img_width fnt rq ch + sum_list (map (img_width fnt rq) chs)" and
    mh: "mh' = Max (insert (max mh (img_height fnt rq ch)) (set (map (img_height fnt rq) chs)))"
    by blast
  have "images' = images @ (img # new)" using new(1) by simp
  moreover have "list_all2 (\<lambda>ch img. glyph_canvas fnt rq ch = Inr img) (ch # chs) (img # new)"
    using g new(2) by simp
  moreover have "mh' = Max (insert mh (set (map (img_height fnt rq) (ch # chs))))"
  proof -
    show ?thesis unfolding mh
      by (cases "chs = []") (simp_all add: max.assoc max.commute max.left_commute Max_insert)
  qed
  ultimately show ?case using w tw by auto
qed

section \<open>Pasting\<close>

lemma paste_region_empty:
  assumes "fst (paste_region self im box) \<le> 0 \<or> snd (paste_region self im box) \<le> 0"
  shows "\<not> (inside self p \<and> inside im (fst p - fst box, snd p - snd box))"
  using assms by (auto simp: paste_region_def inside_def Let_def split: if_splits)

lemma paste_region_fits:
  assumes "0 \<le> fst box" and "0 \<le> snd box"
    and "fst box + width im \<le> width self" and "snd box + height im \<le> height self"
  shows "paste_region self im box = (width im, height im)"
  using assms by (simp add: paste_region_def Let_def)

lemma paste_self_mask:
  "paste sheet img box img =
     (if fst (paste_region sheet img box) \<le> 0 \<or> snd (paste_region sheet img box) \<le> 0
      then Inr sheet
      else if mode img \<noteq> RGBA then Inl (ValueError ''bad transparency mask'')
      else Inr (sheet\<lparr>pixels := (\<lambda>p.
             if inside sheet p \<and> inside img (fst p - fst box, snd p - snd box)
             then blend_pixel (alpha (pixels img (fst p - fst box, snd p - snd box)))
                    (pixels sheet p) (pixels img (fst p - fst box, snd p - snd box))
             else pixels sheet p)\<rparr>))"
  by (cases "mode sheet") (auto simp: paste_def Let_def)

lemma paste_self_mask_Inr:
  assumes "paste sheet img box img = Inr sheet'"
  shows "0 < fst (paste_region sheet img box) \<and> 0 < snd (paste_region sheet img box)
           \<longrightarrow> mode img = RGBA"
    and "width sheet' = width sheet" and "height sheet' = height sheet"
    and "mode sheet' = mode sheet"
    and "pixels sheet' p =
           (if inside sheet p \<and> inside img (fst p - fst box, snd p - snd box)
            then blend_pixel (alpha (pixels img (fst p - fst box, snd p - snd box)))
                   (pixels sheet p) (pixels img (fst p - fst box, snd p - snd box))
            else pixels sheet p)"
proof -
  show "0 < fst (paste_region sheet img box) \<and> 0 < snd (paste_region sheet img box)
           \<longrightarrow> mode img = RGBA"
    using assms by (auto simp: paste_self_mask split: if_splits)
  show "width sheet' = width sheet" and "height sheet' = height sheet"
    and "mode sheet' = mode sheet"
    using assms by (auto simp: paste_self_mask split: if_splits)
  show "pixels sheet' p =
           (if inside sheet p \<and> inside img (fst p - fst box, snd p - snd box)
            then blend_pixel (alpha (pixels img (fst p - fst box, snd p - snd box)))
                   (pixels sheet p) (pixels img (fst p - fst box, snd p - snd box))
            else pixels sheet p)"
  proof (cases "fst (paste_region sheet img box) \<le> 0 \<or> snd (paste_region sheet img box) \<le> 0")
    case True
    then have "sheet' = sheet" using assms by (simp add: paste_self_mask)
    then show ?thesis using paste_region_empty [OF True, of p] by auto
  next
    case False
    then show ?thesis using assms by (auto simp: paste_self_mask split: if_splits)
  qed
qed

text \<open>Canvases without an alpha band that lie in the sheet: the first one of positive
  area stops the loop.\<close>

lemma paste_images_bad_mask:
  assumes "\<forall>img \<in> set imgs. mode img \<noteq> RGBA \<and> 0 \<le> width img \<and> 0 \<le> height img \<and>
             height img \<le> height sheet"
    and "0 \<le> x" and "x + sum_list (map width imgs) \<le> width sheet"
    and "\<exists>img \<in> set imgs. 0 < width img \<and> 0 < height img"
  shows "paste_images sheet x imgs = Inl (ValueError ''bad transparency mask'')"
  using assms
proof (induction imgs arbitrary: x)
  case Nil
  then show ?case by simp
next
  case (Cons img imgs)
  have rest_nonneg: "0 \<le> sum_list (map width imgs)"
    using Cons.prems(1) by (intro sum_list_nonneg) auto
  have region: "paste_region sheet img (x, 0) = (width img, height img)"
    using Cons.prems(1-3) rest_nonneg by (intro paste_region_fits) auto
  show ?case
  proof (cases "0 < width img \<and> 0 < height img")
    case True
    then show ?thesis using Cons.prems(1) by (simp add: paste_self_mask region)
  next
    case False
    then have here: "paste sheet img (x, 0) img = Inr sheet"
      by (auto simp: paste_self_mask region)
    have "paste_images sheet (x + width img) imgs = Inl (ValueError ''bad transparency mask'')"
      using Cons.prems False by (intro Cons.IH) (auto simp: add.assoc)
    then show ?thesis using here by simp
  qed
qed

lemma paste_images_succeeds:
  "\<forall>img \<in> set imgs. mode img = RGBA \<Longrightarrow> \<exists>sheet'. paste_images sheet x imgs = Inr sheet'"
  by (induction imgs arbitrary: sheet x) (auto simp: paste_self_mask)

lemma paste_images_size:
  "paste_images sheet x imgs = Inr sheet' \<Longrightarrow>
   width sheet' = width sheet \<and> height sheet' = height sheet \<and> mode sheet' = mode sheet"
proof (induction imgs arbitrary: sheet x)
  case Nil
  then show ?case by simp
next
  case (Cons img imgs)
  then obtain s1 where s1: "paste sheet img (x, 0) img = Inr s1"
    and rest: "paste_images s1 (x + width img) imgs = Inr sheet'"
    by (auto split: sum.splits)
  from Cons.IH [OF rest] paste_self_mask_Inr(2-4) [OF s1] show ?case by simp
qed

lemma paste_images_left_of:
  assumes "paste_images sheet x imgs = Inr sheet'"
    and "\<forall>img \<in> set imgs. 0 \<le> width img" and "fst p < x"
  shows "pixels sheet' p = pixels sheet p"
  using assms
proof (induction imgs arbitrary: sheet x)
  case Nil
  then show ?case by simp
next
  case (Cons img imgs)
  then obtain s1 where s1: "paste sheet img (x, 0) img = Inr s1"
    and rest: "paste_images s1 (x + width img) imgs = Inr sheet'"
    by (auto split: sum.splits)
  have "pixels s1 p = pixels sheet p"
    using Cons.prems(3) by (simp add: paste_self_mask_Inr(5) [OF s1] inside_def)
  moreover have "pixels sheet' p = pixels s1 p"
    using Cons.IH [OF rest] Cons.prems(2,3) by simp
  ultimately show ?case by simp
qed

lemma paste_images_places:
  assumes "paste_images sheet x imgs = Inr sheet'"
    and "\<forall>img \<in> set imgs. 0 \<le> width img"
    and "i < length imgs" and "inside (imgs ! i) q"
    and "inside sheet (x + sum_list (map width (take i imgs)) + fst q, snd q)"
  shows "pixels sheet' (x + sum_list (map width (take i imgs)) + fst q, snd q) =
           blend_pixel (alpha (pixels (imgs ! i) q))
             (pixels sheet (x + sum_list (map width (take i imgs)) + fst q, snd q))
             (pixels (imgs ! i) q)"
  using assms
proof (induction imgs arbitrary: sheet x i)
  case Nil
  then show ?case by simp
next
  case (Cons img imgs)
  then obtain s1 where s1: "paste sheet img (x, 0) img = Inr s1"
    and rest: "paste_images s1 (x + width img) imgs = Inr sheet'"
    by (auto split: sum.splits)
  have nonneg: "\<forall>img \<in> set imgs. 0 \<le> width img" using Cons.prems(2) by simp
  show ?case
  proof (cases i)
    case 0
    let ?p = "(x + fst q, snd q)"
    have q: "inside img q" and p: "inside sheet ?p" using Cons.prems(4,5) 0 by simp_all
    have "fst ?p < x + width img" using q by (simp add: inside_def)
    then have "pixels sheet' ?p = pixels s1 ?p"
      by (rule paste_images_left_of [OF rest nonneg])
    also have "\<dots> = blend_pixel (alpha (pixels img q)) (pixels sheet ?p) (pixels img q)"
      using q p by (simp add: paste_self_mask_Inr(5) [OF s1])
    finally show ?thesis using 0 by simp
  next
    case (Suc j)
    let ?off = "sum_list (map width (take j imgs))"
    let ?p = "(x + width img + ?off + fst q, snd q)"
    have j: "j < length imgs" and q: "inside (imgs ! j) q" using Cons.prems(3,4) Suc by simp_all
    have p: "inside sheet ?p" using Cons.prems(5) Suc by (simp add: add.assoc)
    have "0 \<le> ?off" using nonneg by (intro sum_list_nonneg) (auto dest!: in_set_takeD)
    moreover have "0 \<le> fst q" using q by (simp add: inside_def)
    ultimately have untouched: "pixels s1 ?p = pixels sheet ?p"
      by (simp add: paste_self_mask_Inr(5) [OF s1] inside_def)
    have p1: "inside s1 ?p"
      using p paste_self_mask_Inr(2,3) [OF s1] by (simp add: inside_def)
    have "pixels sheet' ?p = blend_pixel (alpha (pixels (imgs ! j) q)) (pixels s1 ?p) (pixels (imgs ! j) q)"
      using Cons.IH [OF rest nonneg j q p1] .
    then show ?thesis using untouched Suc by (simp add: add.assoc)
  qed
qed

lemma paste_images_undrawn:
  assumes "bg_type rq = ''transparent''"
    and "list_all2 (\<lambda>ch img. glyph_canvas fnt rq ch = Inr img) chs imgs"
    and "paste_images sheet x imgs = Inr sheet'"
    and "\<not> drawn fnt rq chs x p"
  shows "pixels sheet' p = pixels sheet p"
  using assms(2-4)
proof (induction chs imgs arbitrary: sheet x rule: list_all2_induct)
  case Nil
  then show ?case by simp
next
  case (Cons ch chs img imgs)
  then obtain s1 where s1: "paste sheet img (x, 0) img = Inr s1"
    and rest: "paste_images s1 (x + width img) imgs = Inr sheet'"
    by (auto split: sum.splits)
  note g = glyph_canvas_Inr [OF Cons.hyps(1)]
  let ?q = "(fst p - x, snd p)"
  have "\<not> (inside img ?q \<and> covers fnt ch (fst ?q - padding_left rq, snd ?q - padding_top rq))"
    using Cons.prems(2) g(1,2) by (auto simp: inside_def)
  then have "pixels img ?q = (0, 0, 0, 0)"
    using glyph_canvas_undrawn [OF Cons.hyps(1)] assms(1) by (simp add: background_def)
  then have "pixels s1 p = pixels sheet p"
    by (simp add: paste_self_mask_Inr(5) [OF s1] alpha_def blend_pixel_zero)
  moreover have "pixels sheet' p = pixels s1 p"
    using Cons.IH [OF rest] Cons.prems(2) g(1) by simp
  ultimately show ?case by simp
qed

section \<open>Runs that compose a sheet\<close>

lemma Max_heights:
  assumes "chs \<noteq> []" and "\<forall>ch \<in> set chs. 0 \<le> (h ch :: int)"
  shows "Max (insert 0 (set (map h chs))) = Max (set (map h chs))"
proof -
  obtain ch where "ch \<in> set chs" using assms(1) by (cases chs) auto
  then have "h ch \<in> set (map h chs)" and "0 \<le> h ch" using assms(2) by auto
  then have "0 \<le> Max (set (map h chs))"
    by (meson List.finite_set Max_ge order_trans)
  moreover have "set (map h chs) \<noteq> {}" using assms(1) by simp
  ultimately show ?thesis by (simp add: max.absorb2)
qed

lemma list_all2_glyph_canvas:
  assumes "list_all2 (\<lambda>ch img. glyph_canvas fnt rq ch = Inr img) chs imgs"
  shows "\<forall>ch \<in> set chs. 0 \<le> img_width fnt rq ch \<and> 0 \<le> img_height fnt rq ch"
    and "map width imgs = map (img_width fnt rq) chs"
    and "map height imgs = map (img_height fnt rq) chs"
    and "\<forall>img \<in> set imgs. 0 \<le> width img \<and> 0 \<le> height img \<and>
           mode img = (if bg_type rq = ''transparent'' then RGBA else RGB)"
proof -
  have "(\<forall>ch \<in> set chs. 0 \<le> img_width fnt rq ch \<and> 0 \<le> img_height fnt rq ch) \<and>
        map width imgs = map (img_width fnt rq) chs \<and>
        map height imgs = map (img_height fnt rq) chs \<and>
        (\<forall>img \<in> set imgs. 0 \<le> width img \<and> 0 \<le> height img \<and>
           mode img = (if bg_type rq = ''transparent'' then RGBA else RGB))"
    using assms
  proof (induction chs imgs rule: list_all2_induct)
    case Nil
    then show ?case by simp
  next
    case (Cons ch chs img imgs)
    note g = glyph_canvas_Inr [OF Cons.hyps(1)]
    show ?case using Cons.IH g by simp
  qed
  then show "\<forall>ch \<in> set chs. 0 \<le> img_width fnt rq ch \<and> 0 \<le> img_height fnt rq ch"
    and "map width imgs = map (img_width fnt rq) chs"
    and "map height imgs = map (img_height fnt rq) chs"
    and "\<forall>img \<in> set imgs. 0 \<le> width img \<and> 0 \<le> height img \<and>
           mode img = (if bg_type rq = ''transparent'' then RGBA else RGB)"
    by blast+
qed

lemma render_chars_sheet:
  assumes "export_type rq = ''spritesheet''" and "chs \<noteq> []"
    and "render_chars e fnt rq chs ([], 0, 0) w = (Inr (images, mh, tw), w')"
  shows "w' = w" and "list_all2 (\<lambda>ch img. glyph_canvas fnt rq ch = Inr img) chs images"
    and "tw = sum_list (map (img_width fnt rq) chs)"
    and "mh = Max (set (map (img_height fnt rq) chs))"
    and "images \<noteq> []"
proof -
  have sep: "export_type rq \<noteq> ''separate''" using assms(1) by simp
  from render_chars_retains [OF sep assms(3)]
  have w: "w' = w" and g: "list_all2 (\<lambda>ch img. glyph_canvas fnt rq ch = Inr img) chs images"
    and tw: "tw = sum_list (map (img_width fnt rq) chs)"
    and mh: "mh = Max (insert 0 (set (map (img_height fnt rq) chs)))"
    by auto
  show "w' = w" by (rule w)
  show "list_all2 (\<lambda>ch img. glyph_canvas fnt rq ch = Inr img) chs images" by (rule g)
  show "tw = sum_list (map (img_width fnt rq) chs)" by (rule tw)
  show "mh = Max (set (map (img_height fnt rq) chs))"
    unfolding mh
    using Max_heights [OF assms(2), of "img_height fnt rq"] list_all2_glyph_canvas(1) [OF g]
    by simp
  show "images \<noteq> []" using g assms(2) by (auto simp: list_all2_Nil2)
qed

lemma new_spritesheet_Inr:
  "new_spritesheet rq sz = Inr sheet \<longleftrightarrow>
     0 \<le> fst sz \<and> 0 \<le> snd sz \<and>
     sheet = \<lparr>mode = RGBA, width = fst sz, height = snd sz, pixels = (\<lambda>p. background rq)\<rparr>"
  by (auto simp: new_spritesheet_def Image_new_def background_def getink4_zero)

lemma new_spritesheet_succeeds:
  assumes "export_type rq = ''spritesheet''" and "chs \<noteq> []"
    and "render_chars e fnt rq chs ([], 0, 0) w = (Inr (images, mh, tw), w')"
  shows "new_spritesheet rq (tw, mh) =
           Inr \<lparr>mode = RGBA, width = tw, height = mh, pixels = (\<lambda>p. background rq)\<rparr>"
proof -
  note r = render_chars_sheet [OF assms]
  have nonneg: "\<forall>ch \<in> set chs. 0 \<le> img_width fnt rq ch \<and> 0 \<le> img_height fnt rq ch"
    by (rule list_all2_glyph_canvas(1) [OF r(2)])
  have "0 \<le> tw" unfolding r(3) using nonneg by (intro sum_list_nonneg) auto
  moreover have "0 \<le> mh"
  proof -
    obtain ch where ch: "ch \<in> set chs" using assms(2) by (cases chs) auto
    then have "img_height fnt rq ch \<le> mh" unfolding r(4) by (intro Max_ge) auto
    then show ?thesis using nonneg ch by fastforce
  qed
  ultimately show ?thesis by (simp add: new_spritesheet_Inr)
qed

text \<open>What a completed run in sheet mode did, step by step.\<close>

lemma render_font_sheet:
  assumes "export_type rq = ''spritesheet''" and "characters rq \<noteq> []"
    and "truetype e (font_path rq) (font_size rq) = Inr fnt"
    and "fst (render_font e rq w) = Inr ()"
  obtains images sheet where
    "list_all2 (\<lambda>ch img. glyph_canvas fnt rq ch = Inr img) (characters rq) images"
    "paste_images
       \<lparr>mode = RGBA, width = sum_list (map (img_width fnt rq) (characters rq)),
        height = Max (set (map (img_height fnt rq) (characters rq))),
        pixels = (\<lambda>p. background rq)\<rparr> 0 images = Inr sheet"
    "files (snd (render_font e rq w))
       (join (output_folder rq) (fst (validate_spritesheet_name (spritesheet_name rq) w)))
     = Some sheet"
proof -
  obtain name w1 where v: "validate_spritesheet_name (spritesheet_name rq) w = (name, w1)"
    by (cases "validate_spritesheet_name (spritesheet_name rq) w")
  from assms(4) obtain images mh tw w2 where
    loop: "render_chars e fnt rq (characters rq) ([], 0, 0) w1 = (Inr (images, mh, tw), w2)"
    and fin: "fst (finish e rq name (images, mh, tw) w2) = Inr ()"
    and res: "render_font e rq w = finish e rq name (images, mh, tw) w2"
    using assms(1,3) v
    by (auto simp: render_font_def split: option.splits prod.splits sum.splits)
  note r = render_chars_sheet [OF assms(1,2) loop]
  note s = new_spritesheet_succeeds [OF assms(1,2) loop]
  from fin r(5) assms(1) s obtain sheet w3 where
    p: "paste_images \<lparr>mode = RGBA, width = tw, height = mh, pixels = (\<lambda>p. background rq)\<rparr>
          0 images = Inr sheet"
    and sv: "save e sheet (join (output_folder rq) name) w2 = (Inr (), w3)"
    and f: "finish e rq name (images, mh, tw) w2 = (Inr (), print ''Rendering complete!'' w3)"
    by (auto simp: finish_def export_spritesheet_def split: sum.splits prod.splits)
  from sv have "files w3 (join (output_folder rq) name) = Some sheet"
    by (auto simp: save_def Let_def split: if_splits option.splits)
  then have "files (snd (render_font e rq w)) (join (output_folder rq) name) = Some sheet"
    by (simp add: res f print_def)
  then show ?thesis using that [OF r(2)] p r(3,4) v by simp
qed

subsection \<open>A filled background does not reach the sheet\<close>

text \<open>In filled mode a run that has a canvas of positive area to paste does not complete.\<close>

lemma spritesheet_needs_transparent:
  assumes "export_type rq = ''spritesheet''" and "bg_type rq \<noteq> ''transparent''"
    and "truetype e (font_path rq) (font_size rq) = Inr fnt"
    and "ch \<in> set (characters rq)"
    and "0 < img_width fnt rq ch" and "0 < img_height fnt rq ch"
  shows "fst (render_font e rq w) \<noteq> Inr ()"
proof
  assume ok: "fst (render_font e rq w) = Inr ()"
  have chars: "characters rq \<noteq> []" using assms(4) by auto
  let ?W = "sum_list (map (img_width fnt rq) (characters rq))"
  let ?H = "Max (set (map (img_height fnt rq) (characters rq)))"
  let ?sheet0 = "\<lparr>mode = RGBA, width = ?W, height = ?H, pixels = (\<lambda>p. background rq)\<rparr>"
  from render_font_sheet [OF assms(1) chars assms(3) ok] obtain images sheet where
    g: "list_all2 (\<lambda>ch img. glyph_canvas fnt rq ch = Inr img) (characters rq) images"
    and p: "paste_images ?sheet0 0 images = Inr sheet"
    by blast
  note l = list_all2_glyph_canvas [OF g]
  have low: "height img \<le> ?H" if "img \<in> set images" for img
  proof -
    have "height img \<in> set (map height images)" using that by simp
    then have "height img \<in> set (map (img_height fnt rq) (characters rq))"
      using l(3) by simp
    then show ?thesis by (intro Max_ge) auto
  qed
  have a: "\<forall>img \<in> set images. mode img \<noteq> RGBA \<and> 0 \<le> width img \<and> 0 \<le> height img \<and>
             height img \<le> height ?sheet0"
    using l(4) assms(2) low by auto
  have b: "0 + sum_list (map width images) \<le> width ?sheet0" using l(2) by simp
  from assms(4) obtain i where i: "i < length (characters rq)" "characters rq ! i = ch"
    by (auto simp: in_set_conv_nth)
  have len: "length images = length (characters rq)" using g by (simp add: list_all2_lengthD)
  have gi: "glyph_canvas fnt rq ch = Inr (images ! i)"
    using list_all2_nthD [OF g i(1)] i(2) by simp
  have "0 < width (images ! i) \<and> 0 < height (images ! i)"
    using glyph_canvas_Inr(1,2) [OF gi] assms(5,6) by simp
  moreover have "images ! i \<in> set images" using i(1) len by simp
  ultimately have c: "\<exists>img \<in> set images. 0 < width img \<and> 0 < height img" by blast
  from paste_images_bad_mask [OF a _ b c] p show False by simp
qed

subsection \<open>The size of the sheet\<close>

text \<open>
  C1. In sheet mode with at least one character: when the loop over the characters
  completes, the running totals are the sum of the canvas widths (bounding-box width plus
  left and right padding) and the largest canvas height (bounding-box height plus top and
  bottom padding), and the sheet canvas is allocated with that size; when the run
  completes, the sheet file it wrote has that size.
\<close>

theorem spritesheet_size:
  assumes "export_type rq = ''spritesheet''" and "characters rq \<noteq> []"
    and "truetype e (font_path rq) (font_size rq) = Inr fnt"
  shows
    "(\<forall>images mh tw w1 w2.
        render_chars e fnt rq (characters rq) ([], 0, 0) w1 = (Inr (images, mh, tw), w2) \<longrightarrow>
        tw = (\<Sum>ch\<leftarrow>characters rq. char_width fnt ch + padding_left rq + padding_right rq) \<and>
        mh = Max (set (map (\<lambda>ch. char_height fnt ch + padding_top rq + padding_bottom rq)
                         (characters rq))) \<and>
        (\<exists>sheet0. new_spritesheet rq (tw, mh) = Inr sheet0 \<and>
           width sheet0 = tw \<and> height sheet0 = mh)) \<and>
     (fst (render_font e rq w) = Inr () \<longrightarrow>
        (\<exists>sheet.
           files (snd (render_font e rq w))
             (join (output_folder rq) (fst (validate_spritesheet_name (spritesheet_name rq) w)))
           = Some sheet \<and>
           width sheet =
             (\<Sum>ch\<leftarrow>characters rq. char_width fnt ch + padding_left rq + padding_right rq) \<and>
           height sheet =
             Max (set (map (\<lambda>ch. char_height fnt ch + padding_top rq + padding_bottom rq)
                         (characters rq)))))"
proof (intro conjI allI impI)
  fix images mh tw w1 w2
  assume loop: "render_chars e fnt rq (characters rq) ([], 0, 0) w1 = (Inr (images, mh, tw), w2)"
  note r = render_chars_sheet [OF assms(1,2) loop]
  show "tw = (\<Sum>ch\<leftarrow>characters rq. char_width fnt ch + padding_left rq + padding_right rq)"
    using r(3) by (simp add: img_width_def [abs_def])
  show "mh = Max (set (map (\<lambda>ch. char_height fnt ch + padding_top rq + padding_bottom rq)
                         (characters rq)))"
    using r(4) by (simp add: img_height_def [abs_def])
  show "\<exists>sheet0. new_spritesheet rq (tw, mh) = Inr sheet0 \<and>
           width sheet0 = tw \<and> height sheet0 = mh"
    using new_spritesheet_succeeds [OF assms(1,2) loop] by simp
next
  assume ok: "fst (render_font e rq w) = Inr ()"
  from render_font_sheet [OF assms ok] obtain images sheet where
    p: "paste_images
       \<lparr>mode = RGBA, width = sum_list (map (img_width fnt rq) (characters rq)),
        height = Max (set (map (img_height fnt rq) (characters rq))),
        pixels = (\<lambda>p. background rq)\<rparr> 0 images = Inr sheet"
    and f: "files (snd (render_font e rq w))
       (join (output_folder rq) (fst (validate_spritesheet_name (spritesheet_name rq) w)))
     = Some sheet"
    by blast
  from paste_images_size [OF p] f
  show "\<exists>sheet.
           files (snd (render_font e rq w))
             (join (output_folder rq) (fst (validate_spritesheet_name (spritesheet_name rq) w)))
           = Some sheet \<and>
           width sheet =
             (\<Sum>ch\<leftarrow>characters rq. char_width fnt ch + padding_left rq + padding_right rq) \<and>
           height sheet =
             Max (set (map (\<lambda>ch. char_height fnt ch + padding_top rq + padding_bottom rq)
                         (characters rq)))"
    by (simp add: img_width_def [abs_def] img_height_def [abs_def])
qed

lemma demo_run_ok: "fst (render_font demo_env demo_request empty_world) = Inr ()"
  by code_simp

lemma demo_sheet_path:
  "join (output_folder demo_request)
     (fst (validate_spritesheet_name (spritesheet_name demo_request) empty_world))
   = ''out/sheet.png''"
  by code_simp

theorem spritesheet_size_witness:
  "\<exists>sheet. files (snd (render_font demo_env demo_request empty_world)) ''out/sheet.png''
             = Some sheet \<and> width sheet = 16 \<and> height sheet = 15"
proof -
  have a: "export_type demo_request = ''spritesheet''" by (simp add: demo_request_def)
  have b: "characters demo_request \<noteq> []" by (simp add: demo_request_def)
  have c: "truetype demo_env (font_path demo_request) (font_size demo_request) = Inr demo_font"
    by (simp add: demo_env_def)
  have w: "(\<Sum>ch\<leftarrow>characters demo_request.
              char_width demo_font ch + padding_left demo_request + padding_right demo_request)
           = 16"
    by (simp add: demo_request_def demo_font_def char_width_def padding_left_def
        padding_right_def)
  have h: "Max (set (map (\<lambda>ch. char_height demo_font ch + padding_top demo_request +
                               padding_bottom demo_request) (characters demo_request)))
           = 15"
    by (simp add: demo_request_def demo_font_def char_height_def padding_top_def
        padding_bottom_def)
  show ?thesis
    using spritesheet_size [OF a b c, of empty_world] demo_run_ok
    unfolding demo_sheet_path w h by blast
qed

subsection \<open>The layout of the sheet\<close>

lemma sum_list_take_le:
  assumes "\<forall>x \<in> set xs. 0 \<le> (x :: int)"
  shows "sum_list (take n xs) \<le> sum_list xs"
proof -
  have "sum_list xs = sum_list (take n xs) + sum_list (drop n xs)"
    by (metis append_take_drop_id sum_list_append)
  moreover have "0 \<le> sum_list (drop n xs)"
    using assms by (intro sum_list_nonneg) (auto dest!: in_set_dropD)
  ultimately show ?thesis by simp
qed

text \<open>
  C4. In a completed run in sheet mode, the canvas of the \<open>i\<close>-th character lies in the
  sheet at the column that is the sum of the widths of the canvases before it, and at row
  0: the sheet's pixel there is the (transparent) background blended with the canvas's
  pixel by the canvas's own alpha.
\<close>

theorem glyphs_pasted_left_to_right:
  assumes "export_type rq = ''spritesheet''" and "characters rq \<noteq> []"
    and "truetype e (font_path rq) (font_size rq) = Inr fnt"
    and "fst (render_font e rq w) = Inr ()"
    and "i < length (characters rq)"
  shows
    "\<exists>sheet g.
       files (snd (render_font e rq w))
         (join (output_folder rq) (fst (validate_spritesheet_name (spritesheet_name rq) w)))
       = Some sheet \<and>
       glyph_canvas fnt rq (characters rq ! i) = Inr g \<and>
       (\<forall>q. inside g q \<longrightarrow>
          pixels sheet
            ((\<Sum>ch\<leftarrow>take i (characters rq).
                 char_width fnt ch + padding_left rq + padding_right rq) + fst q,
             0 + snd q)
          = blend_pixel (alpha (pixels g q)) (0, 0, 0, 0) (pixels g q))"
proof -
  let ?W = "sum_list (map (img_width fnt rq) (characters rq))"
  let ?H = "Max (set (map (img_height fnt rq) (characters rq)))"
  let ?sheet0 = "\<lparr>mode = RGBA, width = ?W, height = ?H, pixels = (\<lambda>p. background rq)\<rparr>"
  from render_font_sheet [OF assms(1-4)] obtain images sheet where
    g: "list_all2 (\<lambda>ch img. glyph_canvas fnt rq ch = Inr img) (characters rq) images"
    and p: "paste_images ?sheet0 0 images = Inr sheet"
    and f: "files (snd (render_font e rq w))
       (join (output_folder rq) (fst (validate_spritesheet_name (spritesheet_name rq) w)))
     = Some sheet"
    by blast
  note l = list_all2_glyph_canvas [OF g]
  have len: "length images = length (characters rq)"
    using g by (simp add: list_all2_lengthD)
  have i: "i < length images" using assms(5) len by simp
  have gi: "glyph_canvas fnt rq (characters rq ! i) = Inr (images ! i)"
    using list_all2_nthD [OF g assms(5)] by simp
  have nonneg: "\<forall>img \<in> set images. 0 \<le> width img" using l(4) by simp
  have off: "sum_list (map width (take i images))
             = sum_list (map (img_width fnt rq) (take i (characters rq)))"
    using l(2) by (simp add: take_map [symmetric])
  have "pixels sheet (sum_list (map (img_width fnt rq) (take i (characters rq))) + fst q, snd q)
        = blend_pixel (alpha (pixels (images ! i) q)) (0, 0, 0, 0) (pixels (images ! i) q)"
    if q: "inside (images ! i) q" for q
  proof -
    let ?off = "sum_list (map width (take i images))"
    have wi: "width (images ! i) = img_width fnt rq (characters rq ! i)"
      and hi: "height (images ! i) = img_height fnt rq (characters rq ! i)"
      using glyph_canvas_Inr(1,2) [OF gi] by simp_all
    have "?off + width (images ! i) = sum_list (take (Suc i) (map width images))"
      using i by (simp add: take_Suc_conv_app_nth take_map)
    also have "\<dots> \<le> sum_list (map width images)"
      using nonneg by (intro sum_list_take_le) auto
    finally have right: "?off + width (images ! i) \<le> ?W" using l(2) by simp
    have "0 \<le> ?off" using nonneg by (intro sum_list_nonneg) (auto dest!: in_set_takeD)
    moreover have "img_height fnt rq (characters rq ! i) \<le> ?H"
      using assms(5) by (intro Max_ge) auto
    ultimately have fits: "inside ?sheet0 (0 + ?off + fst q, snd q)"
      using q right hi by (simp add: inside_def)
    have transparent: "bg_type rq = ''transparent''"
    proof (rule ccontr)
      assume filled: "bg_type rq \<noteq> ''transparent''"
      have "0 < img_width fnt rq (characters rq ! i)"
        and "0 < img_height fnt rq (characters rq ! i)"
        using q wi hi by (simp_all add: inside_def)
      from spritesheet_needs_transparent [OF assms(1) filled assms(3) _ this, where w = w]
      show False using assms(4,5) by simp
    qed
    from paste_images_places [OF p nonneg i q fits] show ?thesis
      using off transparent by (simp add: background_def)
  qed
  then show ?thesis using f gi by (auto simp: img_width_def [abs_def])
qed

theorem glyphs_pasted_left_to_right_witness:
  "\<exists>sheet. files (snd (render_font demo_env demo_request empty_world)) ''out/sheet.png''
             = Some sheet \<and> pixels sheet (9 + 2, 0 + 3) = (10, 20, 30, 255)"
proof -
  have a: "export_type demo_request = ''spritesheet''" by (simp add: demo_request_def)
  have b: "characters demo_request \<noteq> []" by (simp add: demo_request_def)
  have c: "truetype demo_env (font_path demo_request) (font_size demo_request) = Inr demo_font"
    by (simp add: demo_env_def)
  have d: "1 < length (characters demo_request)" by (simp add: demo_request_def)
  have off: "(\<Sum>ch\<leftarrow>take 1 (characters demo_request).
              char_width demo_font ch + padding_left demo_request + padding_right demo_request)
           = 9"
    by (simp add: demo_request_def demo_font_def char_width_def padding_left_def
        padding_right_def)
  from glyphs_pasted_left_to_right [OF a b c demo_run_ok d, unfolded demo_sheet_path off]
  obtain sheet g where
    f: "files (snd (render_font demo_env demo_request empty_world)) ''out/sheet.png''
        = Some sheet"
    and g: "glyph_canvas demo_font demo_request (characters demo_request ! 1) = Inr g"
    and px: "\<forall>q. inside g q \<longrightarrow>
               pixels sheet (9 + fst q, 0 + snd q)
               = blend_pixel (alpha (pixels g q)) (0, 0, 0, 0) (pixels g q)"
    by blast
  from g have gq: "inside g (2, 3) \<and> pixels g (2, 3) = (10, 20, 30, 255)"
    by (auto simp: glyph_canvas_def new_canvas_def Image_new_def draw_text_def demo_request_def
        demo_font_def img_width_def img_height_def char_width_def char_height_def
        padding_left_def padding_right_def padding_top_def padding_bottom_def getink4_zero
        inside_def getink3_def CLIP8_def)
  with px have "pixels sheet (9 + 2, 0 + 3)
      = blend_pixel (alpha (pixels g (2, 3))) (0, 0, 0, 0) (pixels g (2, 3))"
    by fastforce
  also have "\<dots> = (10, 20, 30, 255)"
    by (simp add: gq alpha_def blend_pixel_def BLEND_def DIV255_def)
  finally show ?thesis using f by blast
qed

subsection \<open>The background of the sheet\<close>

lemma bands_getink3:
  assumes "0 \<le> r" "r \<le> 255" "0 \<le> g" "g \<le> 255" "0 \<le> b" "b \<le> 255"
  shows "bands (getink3 (r, g, b)) = (r, g, b, 255)"
  using assms by (simp add: bands_def getink3_def uint_CLIP8)

lemma bands_background:
  assumes "bg_color rq = (r, g, b)"
    and "0 \<le> r" "r \<le> 255" "0 \<le> g" "g \<le> 255" "0 \<le> b" "b \<le> 255"
  shows "bands (background rq) =
           (if bg_type rq = ''transparent'' then (0, 0, 0, 0) else (r, g, b, 255))"
  using bands_getink3 [OF assms(2-)] assms(1) by (simp add: background_def bands_def)

text \<open>
  With a background colour of three bytes: the sheet canvas is allocated as an \<open>RGBA\<close>
  image whose every pixel is fully transparent in transparent mode and the opaque
  background colour otherwise; a character's canvas is filled by the same rule wherever the
  rasteriser does not draw; and in the sheet file of a completed run in transparent mode
  every pixel outside the drawn glyph regions is fully transparent.
\<close>

lemma canvas_background:
  assumes "bg_color rq = (r, g, b)"
    and "0 \<le> r" "r \<le> 255" "0 \<le> g" "g \<le> 255" "0 \<le> b" "b \<le> 255"
  shows
    "(\<forall>sz sheet0. new_spritesheet rq sz = Inr sheet0 \<longrightarrow>
        mode sheet0 = RGBA \<and>
        (\<forall>p. bands (pixels sheet0 p) =
               (if bg_type rq = ''transparent'' then (0, 0, 0, 0) else (r, g, b, 255)))) \<and>
     (\<forall>fnt ch img p.
        glyph_canvas fnt rq ch = Inr img \<and>
        \<not> (inside img p \<and> covers fnt ch (fst p - padding_left rq, snd p - padding_top rq)) \<longrightarrow>
        bands (pixels img p) =
          (if bg_type rq = ''transparent'' then (0, 0, 0, 0) else (r, g, b, 255)))"
proof (intro conjI allI impI)
  fix sz sheet0
  assume "new_spritesheet rq sz = Inr sheet0"
  then have s: "sheet0 = \<lparr>mode = RGBA, width = fst sz, height = snd sz,
                          pixels = (\<lambda>p. background rq)\<rparr>"
    by (simp add: new_spritesheet_Inr)
  show "mode sheet0 = RGBA" by (simp add: s)
  show "bands (pixels sheet0 p) =
          (if bg_type rq = ''transparent'' then (0, 0, 0, 0) else (r, g, b, 255))" for p
    using bands_background [OF assms] by (simp add: s)
next
  fix fnt ch img p
  assume "glyph_canvas fnt rq ch = Inr img \<and>
        \<not> (inside img p \<and> covers fnt ch (fst p - padding_left rq, snd p - padding_top rq))"
  then have "pixels img p = background rq" using glyph_canvas_undrawn by blast
  then show "bands (pixels img p) =
          (if bg_type rq = ''transparent'' then (0, 0, 0, 0) else (r, g, b, 255))"
    using bands_background [OF assms] by simp
qed

lemma transparent_spritesheet_background:
  assumes "export_type rq = ''spritesheet''" and "bg_type rq = ''transparent''"
    and "characters rq \<noteq> []"
    and "truetype e (font_path rq) (font_size rq) = Inr fnt"
    and "fst (render_font e rq w) = Inr ()"
  shows "\<exists>sheet.
           files (snd (render_font e rq w))
             (join (output_folder rq) (fst (validate_spritesheet_name (spritesheet_name rq) w)))
           = Some sheet \<and>
           mode sheet = RGBA \<and>
           (\<forall>p. \<not> drawn fnt rq (characters rq) 0 p \<longrightarrow>
                  bands (pixels sheet p) = (0, 0, 0, 0))"
proof -
  let ?sheet0 = "\<lparr>mode = RGBA, width = sum_list (map (img_width fnt rq) (characters rq)),
        height = Max (set (map (img_height fnt rq) (characters rq))),
        pixels = (\<lambda>p. background rq)\<rparr>"
  from render_font_sheet [OF assms(1,3,4,5)] obtain images sheet where
    g: "list_all2 (\<lambda>ch img. glyph_canvas fnt rq ch = Inr img) (characters rq) images"
    and p: "paste_images ?sheet0 0 images = Inr sheet"
    and f: "files (snd (render_font e rq w))
       (join (output_folder rq) (fst (validate_spritesheet_name (spritesheet_name rq) w)))
     = Some sheet"
    by blast
  have "mode sheet = RGBA" using paste_images_size [OF p] by simp
  moreover have "bands (pixels sheet p) = (0, 0, 0, 0)"
    if "\<not> drawn fnt rq (characters rq) 0 p" for p
    using paste_images_undrawn [OF assms(2) g p that] assms(2)
    by (simp add: background_def bands_def)
  ultimately show ?thesis using f by blast
qed

subsection \<open>The mask of a filled canvas\<close>

text \<open>
  C5. The defect: in filled mode the retained canvases are \<open>RGB\<close> images, and an \<open>RGB\<close>
  image is not a mask; the first paste raises and no sheet is written.
\<close>

theorem filled_spritesheet_bad_mask:
  "fst (render_font demo_env (demo_request\<lparr>bg_type := ''filled''\<rparr>) empty_world)
     = Inl (ValueError ''bad transparency mask'') \<and>
   files (snd (render_font demo_env (demo_request\<lparr>bg_type := ''filled''\<rparr>) empty_world))
     ''out/sheet.png'' = None"
  by code_simp


text \<open>In transparent mode every retained canvas can be its own mask.\<close>

lemma transparent_paste_succeeds:
  assumes "bg_type rq = ''transparent''"
    and "list_all2 (\<lambda>ch img. glyph_canvas fnt rq ch = Inr img) chs images"
  shows "\<exists>sheet'. paste_images sheet x images = Inr sheet'"
  using list_all2_glyph_canvas(4) [OF assms(2)] assms(1)
  by (intro paste_images_succeeds) simp

section \<open>The empty character sequence\<close>

text \<open>
  C7. With no characters in sheet mode no file is written, whatever the environment
  answers; and when the font loads and the directory can be made, the run completes having
  done nothing but validate the name and print the closing message.
\<close>

theorem empty_spritesheet_run:
  assumes "characters rq = []" and "export_type rq = ''spritesheet''"
  shows
    "files (snd (render_font e rq w)) = files w \<and>
     (\<forall>fnt. truetype e (font_path rq) (font_size rq) = Inr fnt \<and>
            makedirs e (output_folder rq) = None \<longrightarrow>
        render_font e rq w =
          (Inr (), print ''Rendering complete!''
                     (snd (validate_spritesheet_name (spritesheet_name rq) w))))"
  using assms
  by (auto simp: render_font_def finish_def validate_spritesheet_name_def print_def
      split: sum.splits option.splits prod.splits)

theorem empty_spritesheet_run_witness:
  "files (snd (render_font demo_env (demo_request\<lparr>characters := []\<rparr>) empty_world))
     = Map.empty \<and>
   render_font demo_env (demo_request\<lparr>characters := []\<rparr>) empty_world =
     (Inr (), \<lparr>files = Map.empty, stdout = [warning ''sheet'', ''Rendering complete!'']\<rparr>)"
proof -
  have a: "characters (demo_request\<lparr>characters := []\<rparr>) = []" by simp
  have b: "export_type (demo_request\<lparr>characters := []\<rparr>) = ''spritesheet''"
    by (simp add: demo_request_def)
  have c: "truetype demo_env (font_path (demo_request\<lparr>characters := []\<rparr>))
             (font_size (demo_request\<lparr>characters := []\<rparr>)) = Inr demo_font \<and>
           makedirs demo_env (output_folder (demo_request\<lparr>characters := []\<rparr>)) = None"
    by (simp add: demo_env_def)
  have v: "validate_spritesheet_name ''sheet'' \<lparr>files = Map.empty, stdout = []\<rparr>
           = (''sheet.png'', \<lparr>files = Map.empty, stdout = [warning ''sheet'']\<rparr>)"
    by (simp add: validate_spritesheet_name_def endswith_def lower_def print_def)
  have n: "spritesheet_name demo_request = ''sheet''" by (simp add: demo_request_def)
  show ?thesis
    using empty_spritesheet_run [OF a b, of demo_env empty_world] c
    by (simp add: n v print_def empty_world_def)
qed

section \<open>The background colour in transparent mode\<close>

lemma sizes_bg_color [simp]:
  "img_width fnt (rq\<lparr>bg_color := c\<rparr>) ch = img_width fnt rq ch"
  "img_height fnt (rq\<lparr>bg_color := c\<rparr>) ch = img_height fnt rq ch"
  "padding_left (rq\<lparr>bg_color := c\<rparr>) = padding_left rq"
  "padding_top (rq\<lparr>bg_color := c\<rparr>) = padding_top rq"
  by (simp_all add: img_width_def img_height_def padding_left_def padding_right_def
      padding_top_def padding_bottom_def)

lemma new_canvas_bg_color:
  "bg_type rq = ''transparent'' \<Longrightarrow> new_canvas (rq\<lparr>bg_color := c\<rparr>) sz = new_canvas rq sz"
  by (simp add: new_canvas_def)

lemma glyph_canvas_bg_color:
  "bg_type rq = ''transparent'' \<Longrightarrow>
   glyph_canvas fnt (rq\<lparr>bg_color := c\<rparr>) ch = glyph_canvas fnt rq ch"
  by (simp add: glyph_canvas_def new_canvas_bg_color split: sum.splits)

lemma render_char_bg_color:
  "bg_type rq = ''transparent'' \<Longrightarrow>
   render_char e fnt (rq\<lparr>bg_color := c\<rparr>) ch acc w = render_char e fnt rq ch acc w"
  by (simp add: render_char_def glyph_canvas_bg_color split: sum.splits prod.splits)

lemma render_chars_bg_color:
  "bg_type rq = ''transparent'' \<Longrightarrow>
   render_chars e fnt (rq\<lparr>bg_color := c\<rparr>) chs acc w = render_chars e fnt rq chs acc w"
  by (induction chs arbitrary: acc w)
    (simp_all add: render_char_bg_color split: sum.splits prod.splits)

lemma new_spritesheet_bg_color:
  "bg_type rq = ''transparent'' \<Longrightarrow>
   new_spritesheet (rq\<lparr>bg_color := c\<rparr>) sz = new_spritesheet rq sz"
  by (simp add: new_spritesheet_def)

lemma export_spritesheet_bg_color:
  "bg_type rq = ''transparent'' \<Longrightarrow>
   export_spritesheet e (rq\<lparr>bg_color := c\<rparr>) name acc w = export_spritesheet e rq name acc w"
  by (cases acc)
    (simp add: export_spritesheet_def new_spritesheet_bg_color split: sum.splits)

lemma finish_bg_color:
  "bg_type rq = ''transparent'' \<Longrightarrow>
   finish e (rq\<lparr>bg_color := c\<rparr>) name acc w = finish e rq name acc w"
  by (simp add: finish_def export_spritesheet_bg_color)

text \<open>
  C10. In transparent mode the background colour is never read: changing it changes
  neither a character's canvas, nor the sheet canvas, nor anything the run does.
\<close>

theorem transparent_ignores_bg_color:
  assumes "bg_type rq = ''transparent''"
  shows "glyph_canvas fnt (rq\<lparr>bg_color := c\<rparr>) ch = glyph_canvas fnt rq ch \<and>
         new_spritesheet (rq\<lparr>bg_color := c\<rparr>) sz = new_spritesheet rq sz \<and>
         render_font e (rq\<lparr>bg_color := c\<rparr>) w = render_font e rq w"
  using assms
  by (simp add: glyph_canvas_bg_color render_chars_bg_color new_spritesheet_bg_color
      finish_bg_color render_font_def split: sum.splits prod.splits option.splits)

theorem transparent_ignores_bg_color_witness:
  "render_font demo_env (demo_request\<lparr>bg_color := (1, 2, 3)\<rparr>) empty_world
   = render_font demo_env demo_request empty_world"
proof -
  have "bg_type demo_request = ''transparent''" by (simp add: demo_request_def)
  from transparent_ignores_bg_color [OF this] show ?thesis by blast
qed

section \<open>Determinism\<close>

lemma extend_empty [simp]: "extend w empty_world = w"
  by (simp add: extend_def empty_world_def)

lemma extend_assoc: "extend (extend w d1) d2 = extend w (extend d1 d2)"
  by (simp add: extend_def)

lemma print_extend: "print line w = extend w \<lparr>files = Map.empty, stdout = [line]\<rparr>"
  by (simp add: print_def extend_def)

lemma save_framed: "\<exists>r d. \<forall>w. save e img fp w = (r, extend w d)"
proof (cases "fst (save e img fp empty_world)")
  case (Inl err)
  then have "\<forall>w. save e img fp w = (Inl err, extend w empty_world)"
    by (auto simp: save_def Let_def split: if_splits option.splits)
  then show ?thesis by blast
next
  case (Inr u)
  then have "\<forall>w. save e img fp w
      = (Inr (), extend w \<lparr>files = [fp \<mapsto> img], stdout = []\<rparr>)"
    by (auto simp: save_def Let_def extend_def split: if_splits option.splits)
  then show ?thesis by blast
qed

lemma validate_framed: "\<exists>r d. \<forall>w. validate_spritesheet_name name w = (r, extend w d)"
proof (cases "endswith (lower name) ''.png''")
  case True
  then have "\<forall>w. validate_spritesheet_name name w = (name, extend w empty_world)"
    by (simp add: validate_spritesheet_name_def)
  then show ?thesis by blast
next
  case False
  then have "\<forall>w. validate_spritesheet_name name w
      = (name @ ''.png'', extend w \<lparr>files = Map.empty, stdout = [warning name]\<rparr>)"
    by (simp add: validate_spritesheet_name_def print_extend)
  then show ?thesis by blast
qed

lemma render_char_framed: "\<exists>r d. \<forall>w. render_char e fnt rq ch acc w = (r, extend w d)"
proof (cases "glyph_canvas fnt rq ch")
  case (Inl err)
  then have "\<forall>w. render_char e fnt rq ch acc w = (Inl err, extend w empty_world)"
    by (simp add: render_char_def)
  then show ?thesis by blast
next
  case (Inr img)
  show ?thesis
  proof (cases "export_type rq = ''separate''")
    case True
    obtain r d where s: "\<forall>w. save e img (join (output_folder rq) (ch # ''.png'')) w
        = (r, extend w d)"
      using save_framed by blast
    have "\<forall>w. render_char e fnt rq ch acc w
        = ((case r of Inl err \<Rightarrow> Inl err | Inr u \<Rightarrow> Inr acc), extend w d)"
      using Inr True s by (simp add: render_char_def split: sum.splits)
    then show ?thesis by blast
  next
    case False
    obtain images mh tw where acc: "acc = (images, mh, tw)" by (cases acc)
    have "\<forall>w. render_char e fnt rq ch acc w
        = (Inr (images @ [img], max mh (img_height fnt rq ch), tw + img_width fnt rq ch),
           extend w empty_world)"
      using Inr False acc by (simp add: render_char_def)
    then show ?thesis by blast
  qed
qed

lemma render_chars_framed:
  "\<exists>r d. \<forall>w. render_chars e fnt rq chs acc w = (r, extend w d)"
proof (induction chs arbitrary: acc)
  case Nil
  have "\<forall>w. render_chars e fnt rq [] acc w = (Inr acc, extend w empty_world)" by simp
  then show ?case by blast
next
  case (Cons ch chs)
  obtain r1 d1 where one: "\<forall>w. render_char e fnt rq ch acc w = (r1, extend w d1)"
    using render_char_framed by blast
  show ?case
  proof (cases r1)
    case (Inl err)
    then have "\<forall>w. render_chars e fnt rq (ch # chs) acc w = (Inl err, extend w d1)"
      using one by simp
    then show ?thesis by blast
  next
    case (Inr acc')
    obtain r d where rest: "\<forall>w. render_chars e fnt rq chs acc' w = (r, extend w d)"
      using Cons.IH by blast
    have "\<forall>w. render_chars e fnt rq (ch # chs) acc w = (r, extend w (extend d1 d))"
      using one Inr rest by (simp add: extend_assoc)
    then show ?thesis by blast
  qed
qed

lemma export_spritesheet_framed:
  "\<exists>r d. \<forall>w. export_spritesheet e rq name acc w = (r, extend w d)"
proof -
  obtain images mh tw where acc: "acc = (images, mh, tw)" by (cases acc)
  show ?thesis
  proof (cases "new_spritesheet rq (tw, mh)")
    case (Inl err)
    then have "\<forall>w. export_spritesheet e rq name acc w = (Inl err, extend w empty_world)"
      by (simp add: export_spritesheet_def acc)
    then show ?thesis by blast
  next
    case new: (Inr sheet0)
    show ?thesis
    proof (cases "paste_images sheet0 0 images")
      case (Inl err)
      then have "\<forall>w. export_spritesheet e rq name acc w = (Inl err, extend w empty_world)"
        by (simp add: export_spritesheet_def acc new)
      then show ?thesis by blast
    next
      case (Inr sheet)
      then have "\<forall>w. export_spritesheet e rq name acc w
          = save e sheet (join (output_folder rq) name) w"
        by (simp add: export_spritesheet_def acc new)
      then show ?thesis using save_framed [of e sheet "join (output_folder rq) name"] by simp
    qed
  qed
qed

lemma finish_framed: "\<exists>r d. \<forall>w. finish e rq name acc w = (r, extend w d)"
proof (cases "export_type rq = ''spritesheet'' \<and> fst acc \<noteq> []")
  case True
  obtain r d where x: "\<forall>w. export_spritesheet e rq name acc w = (r, extend w d)"
    using export_spritesheet_framed by blast
  show ?thesis
  proof (cases r)
    case (Inl err)
    then have "\<forall>w. finish e rq name acc w = (Inl err, extend w d)"
      using True x by (simp add: finish_def)
    then show ?thesis by blast
  next
    case (Inr u)
    then have "\<forall>w. finish e rq name acc w
        = (Inr (), extend w (extend d \<lparr>files = Map.empty, stdout = [''Rendering complete!'']\<rparr>))"
      using True x by (simp add: finish_def print_extend extend_assoc)
    then show ?thesis by blast
  qed
next
  case False
  then have "\<forall>w. finish e rq name acc w
      = (Inr (), extend w \<lparr>files = Map.empty, stdout = [''Rendering complete!'']\<rparr>)"
    by (auto simp: finish_def print_extend)
  then show ?thesis by blast
qed

text \<open>
  C9. The outcome of a run and what it adds to the world (the files it writes, with their
  names, sizes and pixels, and the lines it prints) are fixed by the request and the
  environment's answers, the font among them: they are the same from every starting world.
\<close>

theorem render_font_deterministic:
  "\<exists>r d. \<forall>w. render_font e rq w = (r, extend w d)"
proof -
  obtain name d0 where v:
    "\<forall>w. (if export_type rq = ''spritesheet''
           then validate_spritesheet_name (spritesheet_name rq) w
           else (spritesheet_name rq, w)) = (name, extend w d0)"
  proof (cases "export_type rq = ''spritesheet''")
    case True
    then show ?thesis using validate_framed [of "spritesheet_name rq"] that by auto
  next
    case False
    then have "\<forall>w. (if export_type rq = ''spritesheet''
           then validate_spritesheet_name (spritesheet_name rq) w
           else (spritesheet_name rq, w)) = (spritesheet_name rq, extend w empty_world)"
      by simp
    then show ?thesis using that by blast
  qed
  show ?thesis
  proof (cases "truetype e (font_path rq) (font_size rq)")
    case (Inl err)
    then have "\<forall>w. render_font e rq w = (Inl err, extend w d0)"
      using v by (simp add: render_font_def)
    then show ?thesis by blast
  next
    case font: (Inr fnt)
    show ?thesis
    proof (cases "makedirs e (output_folder rq)")
      case (Some err)
      then have "\<forall>w. render_font e rq w = (Inl err, extend w d0)"
        using v font by (simp add: render_font_def)
      then show ?thesis by blast
    next
      case None
      obtain r1 d1 where loop:
        "\<forall>w. render_chars e fnt rq (characters rq) ([], 0, 0) w = (r1, extend w d1)"
        using render_chars_framed by blast
      show ?thesis
      proof (cases r1)
        case (Inl err)
        then have "\<forall>w. render_font e rq w = (Inl err, extend w (extend d0 d1))"
          using v font None loop by (simp add: render_font_def extend_assoc)
        then show ?thesis by blast
      next
        case (Inr acc)
        obtain r2 d2 where fin: "\<forall>w. finish e rq name acc w = (r2, extend w d2)"
          using finish_framed by blast
        have "\<forall>w. render_font e rq w = (r2, extend w (extend (extend d0 d1) d2))"
          using v font None loop Inr fin by (simp add: render_font_def extend_assoc)
        then show ?thesis by blast
      qed
    qed
  qed
qed

section \<open>Runs that save every character\<close>

lemma join_inject:
  assumes "join a (c # s) = join a (d # s)"
  shows "c = d"
proof -
  have len: "length (join a (x # s)) =
      (if x = CHR ''/'' then Suc (length s)
       else if a = [] \<or> endswith a ''/'' then length a + Suc (length s)
       else length a + Suc (Suc (length s)))" for x
    by (simp add: join_def startswith_def)
  show ?thesis
  proof (cases "c = CHR ''/''")
    case c: True
    show ?thesis
    proof (cases "d = CHR ''/''")
      case True
      then show ?thesis using c by simp
    next
      case False
      have "length (join a (c # s)) = length (join a (d # s))" using assms by simp
      then have "a = []" using c False by (simp add: len split: if_splits)
      then show ?thesis using assms c False by (simp add: join_def startswith_def)
    qed
  next
    case c: False
    show ?thesis
    proof (cases "d = CHR ''/''")
      case True
      have "length (join a (c # s)) = length (join a (d # s))" using assms by simp
      then have "a = []" using c True by (simp add: len split: if_splits)
      then show ?thesis using assms c True by (simp add: join_def startswith_def)
    next
      case False
      then show ?thesis using assms c by (simp add: join_def startswith_def split: if_splits)
    qed
  qed
qed

lemma save_Inr:
  assumes "save e img fp w = (Inr u, w')"
  shows "w' = w\<lparr>files := (files w)(fp \<mapsto> img)\<rparr>"
    and "lower (snd (splitext fp)) = ''.png''" and "write_error e fp img = None"
  using assms by (auto simp: save_def Let_def split: if_splits option.splits)

lemma render_chars_saves:
  assumes "export_type rq = ''separate''"
    and "render_chars e fnt rq chs acc w = (Inr acc', w')"
  shows "acc' = acc \<and> stdout w' = stdout w \<and>
         (\<forall>ch \<in> set chs. \<exists>img. glyph_canvas fnt rq ch = Inr img \<and>
            files w' (join (output_folder rq) (ch # ''.png'')) = Some img) \<and>
         (\<forall>p. p \<notin> (\<lambda>ch. join (output_folder rq) (ch # ''.png'')) ` set chs \<longrightarrow>
            files w' p = files w p)"
  using assms(2)
proof (induction chs arbitrary: w)
  case Nil
  then show ?case by simp
next
  case (Cons ch chs)
  let ?path = "\<lambda>ch. join (output_folder rq) (ch # ''.png'')"
  from Cons.prems assms(1) obtain img w1 u where
    g: "glyph_canvas fnt rq ch = Inr img" and
    s: "save e img (?path ch) w = (Inr u, w1)" and
    rest: "render_chars e fnt rq chs acc w1 = (Inr acc', w')"
    by (auto simp: render_char_def split: sum.splits prod.splits)
  note w1 = save_Inr(1) [OF s]
  from Cons.IH [OF rest] have
    acc: "acc' = acc" and out: "stdout w' = stdout w1" and
    saved: "\<forall>ch \<in> set chs. \<exists>img. glyph_canvas fnt rq ch = Inr img \<and>
              files w' (?path ch) = Some img" and
    other: "\<forall>p. p \<notin> ?path ` set chs \<longrightarrow> files w' p = files w1 p"
    by blast+
  have "\<exists>img. glyph_canvas fnt rq ch = Inr img \<and> files w' (?path ch) = Some img"
  proof (cases "ch \<in> set chs")
    case True
    then show ?thesis using saved by blast
  next
    case False
    have "?path ch \<notin> ?path ` set chs"
    proof
      assume "?path ch \<in> ?path ` set chs"
      then obtain d where "d \<in> set chs" and "?path ch = ?path d" by blast
      then show False using join_inject False by blast
    qed
    then have "files w' (?path ch) = files w1 (?path ch)" using other by blast
    then show ?thesis using g by (simp add: w1)
  qed
  moreover have "files w' p = files w p" if "p \<notin> ?path ` set (ch # chs)" for p
  proof -
    have "files w' p = files w1 p" using other that by simp
    then show ?thesis using that by (simp add: w1)
  qed
  ultimately show ?case using acc out saved by (simp add: w1)
qed

text \<open>
  A completed run in separate mode: every character's canvas is in the file named after
  it, no other file is touched, and the paths written are as many as the distinct
  characters.
\<close>

lemma render_font_separate:
  assumes "export_type rq = ''separate''"
    and "truetype e (font_path rq) (font_size rq) = Inr fnt"
    and "fst (render_font e rq w) = Inr ()"
  shows "(\<forall>ch \<in> set (characters rq). \<exists>img. glyph_canvas fnt rq ch = Inr img \<and>
            files (snd (render_font e rq w)) (join (output_folder rq) (ch # ''.png''))
            = Some img) \<and>
         (\<forall>p. p \<notin> (\<lambda>ch. join (output_folder rq) (ch # ''.png'')) ` set (characters rq) \<longrightarrow>
            files (snd (render_font e rq w)) p = files w p) \<and>
         card ((\<lambda>ch. join (output_folder rq) (ch # ''.png'')) ` set (characters rq))
           = card (set (characters rq))"
proof -
  from assms obtain acc w2 where
    loop: "render_chars e fnt rq (characters rq) ([], 0, 0) w = (Inr acc, w2)" and
    res: "render_font e rq w = finish e rq (spritesheet_name rq) acc w2"
    by (auto simp: render_font_def split: option.splits prod.splits sum.splits)
  have "files (snd (render_font e rq w)) = files w2"
    using assms(1) by (simp add: res finish_def print_def)
  moreover have "inj_on (\<lambda>ch. join (output_folder rq) (ch # ''.png'')) (set (characters rq))"
    by (rule inj_onI) (rule join_inject)
  ultimately show ?thesis using render_chars_saves [OF assms(1) loop] by (simp add: card_image)
qed

text \<open>
  C8. The defect: the file of the character \<open>.\<close> is named \<open>..png\<close>, a name of leading
  dots has no extension, and the save is refused; the run stops with nothing written.
\<close>

theorem separate_dot_unknown_extension:
  "fst (render_font demo_env
          (demo_request\<lparr>export_type := ''separate'', characters := ''.''\<rparr>) empty_world)
     = Inl (ValueError ''unknown file extension: '') \<and>
   files (snd (render_font demo_env
          (demo_request\<lparr>export_type := ''separate'', characters := ''.''\<rparr>) empty_world))
     ''out/..png'' = None \<and>
   join ''out'' ''/.png'' = ''/.png''"
  by code_simp

section \<open>The size of a character's canvas\<close>




text \<open>
  When the whole loop completes, every character of the sequence had its canvas allocated,
  and the canvas is in the file named after the character or among the retained ones.
\<close>

lemma render_chars_canvases:
  assumes "render_chars e fnt rq chs acc w = (Inr acc', w')" and "ch \<in> set chs"
  shows
    "\<exists>img. glyph_canvas fnt rq ch = Inr img \<and>
       (export_type rq = ''separate'' \<longrightarrow>
          files w' (join (output_folder rq) (ch # ''.png'')) = Some img) \<and>
       (export_type rq \<noteq> ''separate'' \<longrightarrow> img \<in> set (fst acc'))"
proof (cases "export_type rq = ''separate''")
  case True
  from render_chars_saves [OF True assms(1)] assms(2) show ?thesis using True by blast
next
  case False
  obtain images mh tw where acc: "acc = (images, mh, tw)" by (cases acc)
  obtain images' mh' tw' where acc': "acc' = (images', mh', tw')" by (cases acc')
  from render_chars_retains [OF False assms(1) [unfolded acc acc']] obtain new where
    new: "images' = images @ new"
      "list_all2 (\<lambda>ch img. glyph_canvas fnt rq ch = Inr img) chs new"
    by blast
  from assms(2) obtain i where i: "i < length chs" "chs ! i = ch"
    by (auto simp: in_set_conv_nth)
  have "glyph_canvas fnt rq ch = Inr (new ! i)"
    using list_all2_nthD [OF new(2) i(1)] i(2) by simp
  moreover have "new ! i \<in> set images'"
    using new i(1) by (simp add: list_all2_lengthD)
  ultimately show ?thesis using False acc' by auto
qed

section \<open>Characters that cannot be saved\<close>

lemma rfind_absent: "\<not> 0 \<le> rfind xs c \<Longrightarrow> rfind xs c = - 1"
  by (induction xs) (auto simp: Let_def split: if_splits)

lemma rfind_append:
  "rfind (xs @ ys) c = (if 0 \<le> rfind ys c then int (length xs) + rfind ys c else rfind xs c)"
  by (induction xs) (auto simp: Let_def rfind_absent)

lemma splitext_leading_dots:
  assumes "pre = [] \<or> endswith pre ''/''"
  shows "splitext (pre @ ''..png'') = (pre @ ''..png'', [])"
proof -
  have dot: "rfind (pre @ ''..png'') (CHR ''.'') = int (length pre) + 1"
    by (simp add: rfind_append)
  have sep: "rfind (pre @ ''..png'') (CHR ''/'') = int (length pre) - 1"
  proof -
    have "rfind (pre @ ''..png'') (CHR ''/'') = rfind pre (CHR ''/'')"
      by (simp add: rfind_append)
    also have "\<dots> = int (length pre) - 1"
    proof (cases "pre = []")
      case True
      then show ?thesis by simp
    next
      case False
      then obtain p where "pre = p @ ''/''" using assms by (auto simp: endswith_iff)
      then show ?thesis by (simp add: rfind_append)
    qed
    finally show ?thesis .
  qed
  show ?thesis unfolding splitext_def dot sep by (simp add: Let_def)
qed

lemma dot_path_no_extension: "snd (splitext (join a ''..png'')) = []"
proof -
  have "\<exists>pre. join a ''..png'' = pre @ ''..png'' \<and> (pre = [] \<or> endswith pre ''/'')"
  proof (cases "a = [] \<or> endswith a ''/''")
    case True
    then have "join a ''..png'' = a @ ''..png''" by (auto simp: join_def startswith_def)
    then show ?thesis using True by blast
  next
    case False
    then have "join a ''..png'' = (a @ ''/'') @ ''..png''"
      by (simp add: join_def startswith_def)
    moreover have "endswith (a @ ''/'') ''/''" by (simp add: endswith_def)
    ultimately show ?thesis by blast
  qed
  then obtain pre where "join a ''..png'' = pre @ ''..png''"
    and "pre = [] \<or> endswith pre ''/''"
    by blast
  then show ?thesis using splitext_leading_dots [of pre] by simp
qed

lemma render_chars_saved_extension:
  assumes "export_type rq = ''separate''"
    and "render_chars e fnt rq chs acc w = (Inr acc', w')"
  shows "\<forall>ch \<in> set chs.
           lower (snd (splitext (join (output_folder rq) (ch # ''.png'')))) = ''.png''"
  using assms(2)
proof (induction chs arbitrary: w)
  case Nil
  then show ?case by simp
next
  case (Cons ch chs)
  from Cons.prems assms(1) obtain img w1 u where
    s: "save e img (join (output_folder rq) (ch # ''.png'')) w = (Inr u, w1)" and
    rest: "render_chars e fnt rq chs acc w1 = (Inr acc', w')"
    by (auto simp: render_char_def split: sum.splits prod.splits)
  from save_Inr(2) [OF s] Cons.IH [OF rest] show ?case by simp
qed

text \<open>No run in separate mode whose characters include a dot completes.\<close>

lemma separate_dot_never_completes:
  assumes "export_type rq = ''separate''" and "CHR ''.'' \<in> set (characters rq)"
  shows "fst (render_font e rq w) \<noteq> Inr ()"
proof
  assume "fst (render_font e rq w) = Inr ()"
  then obtain fnt acc w2 where
    "render_chars e fnt rq (characters rq) ([], 0, 0) w = (Inr acc, w2)"
    using assms(1)
    by (auto simp: render_font_def split: option.splits prod.splits sum.splits)
  from render_chars_saved_extension [OF assms(1) this] assms(2)
  have "lower (snd (splitext (join (output_folder rq) ''..png''))) = ''.png''" by fastforce
  then show False by (simp add: dot_path_no_extension lower_def)
qed

lemma rfind_less: "rfind xs c < int (length xs)"
  by (induction xs) (auto simp: Let_def)

lemma splitext_named:
  assumes "ch \<noteq> CHR ''.''" and "ch \<noteq> CHR ''/''"
  shows "snd (splitext (pre @ ch # ''.png'')) = ''.png''"
proof -
  let ?p = "pre @ ch # ''.png''"
  have dot: "rfind ?p (CHR ''.'') = int (length pre) + 1"
    using assms(1) by (simp add: rfind_append)
  have "rfind ?p (CHR ''/'') = rfind pre (CHR ''/'')"
    using assms(2) by (simp add: rfind_append)
  then obtain k where sep: "rfind ?p (CHR ''/'') = int k - 1" and k: "k \<le> length pre"
    using rfind_less [of pre "CHR ''/''"] rfind_absent [of pre "CHR ''/''"]
    by (cases "0 \<le> rfind pre (CHR ''/'')")
      (auto intro: that [of "nat (rfind pre (CHR ''/'') + 1)"] that [of 0])
  have slice: "take (nat (int (length pre) + 1 - (int k - 1 + 1))) (drop (nat (int k - 1 + 1)) ?p)
               = drop k pre @ [ch]"
  proof -
    have a: "nat (int (length pre) + 1 - (int k - 1 + 1)) = Suc (length pre - k)"
      and b: "nat (int k - 1 + 1) = k"
      using k by simp_all
    have c: "Suc (length pre - k) - (length pre - k) = Suc 0" by simp
    show ?thesis unfolding a b using k by (simp add: c)
  qed
  show ?thesis
    unfolding splitext_def dot sep Let_def slice
    using assms(1) k by (simp add: nat_add_distrib)
qed

lemma named_path_extension:
  assumes "ch \<noteq> CHR ''.''" and "ch \<noteq> CHR ''/''"
  shows "snd (splitext (join a (ch # ''.png''))) = ''.png''"
proof -
  have "join a (ch # ''.png'') = a @ ch # ''.png'' \<or>
        join a (ch # ''.png'') = (a @ ''/'') @ ch # ''.png''"
    using assms(2) by (simp add: join_def startswith_def)
  then show ?thesis using splitext_named [OF assms] by metis
qed

text \<open>
  Where nothing stands in the way, a run in separate mode completes: the font loads, the
  directory can be made, every file can be written, no canvas has a negative dimension,
  and no character is a dot or a slash.
\<close>

lemma render_chars_separate_completes:
  assumes "export_type rq = ''separate''"
    and "\<forall>p img. write_error e p img = None"
    and "\<forall>ch \<in> set chs. ch \<noteq> CHR ''.'' \<and> ch \<noteq> CHR ''/'' \<and>
           0 \<le> img_width fnt rq ch \<and> 0 \<le> img_height fnt rq ch"
  shows "\<exists>w'. render_chars e fnt rq chs acc w = (Inr acc, w')"
  using assms(3)
proof (induction chs arbitrary: w)
  case Nil
  then show ?case by simp
next
  case (Cons ch chs)
  then obtain img where g: "glyph_canvas fnt rq ch = Inr img"
    using glyph_canvas_succeeds [of fnt rq ch] by auto
  have "lower (snd (splitext (join (output_folder rq) (ch # ''.png'')))) = ''.png''"
    using Cons.prems by (simp add: named_path_extension lower_def lower_char_def)
  then have "\<exists>w1. save e img (join (output_folder rq) (ch # ''.png'')) w = (Inr (), w1)"
    using assms(2) by (simp add: save_def Let_def)
  then obtain w1 where
    "render_char e fnt rq ch acc w = (Inr acc, w1)"
    using g assms(1) by (auto simp: render_char_def)
  moreover obtain w' where "render_chars e fnt rq chs acc w1 = (Inr acc, w')"
    using Cons.IH [of w1] Cons.prems by auto
  ultimately show ?case by simp
qed

lemma separate_run_completes:
  assumes "export_type rq = ''separate''"
    and "truetype e (font_path rq) (font_size rq) = Inr fnt"
    and "makedirs e (output_folder rq) = None"
    and "\<forall>p img. write_error e p img = None"
    and "\<forall>ch \<in> set (characters rq). ch \<noteq> CHR ''.'' \<and> ch \<noteq> CHR ''/'' \<and>
           0 \<le> img_width fnt rq ch \<and> 0 \<le> img_height fnt rq ch"
  shows "fst (render_font e rq w) = Inr ()"
proof -
  obtain w' where "render_chars e fnt rq (characters rq) ([], 0, 0) w = (Inr ([], 0, 0), w')"
    using render_chars_separate_completes [OF assms(1,4,5)] by blast
  then show ?thesis using assms(1-3) by (simp add: render_font_def finish_def)
qed

text \<open>
  Likewise in sheet mode with a transparent background: the run completes when, besides,
  the sheet's path carries the extension.
\<close>

lemma render_chars_retain_completes:
  assumes "export_type rq \<noteq> ''separate''"
    and "\<forall>ch \<in> set chs. 0 \<le> img_width fnt rq ch \<and> 0 \<le> img_height fnt rq ch"
  shows "\<exists>acc'. render_chars e fnt rq chs acc w = (Inr acc', w)"
  using assms(2)
proof (induction chs arbitrary: acc)
  case Nil
  have "render_chars e fnt rq [] acc w = (Inr acc, w)" by simp
  then show ?case by blast
next
  case (Cons ch chs)
  then obtain img where g: "glyph_canvas fnt rq ch = Inr img"
    using glyph_canvas_succeeds [of fnt rq ch] by auto
  obtain images mh tw where acc: "acc = (images, mh, tw)" by (cases acc)
  have "render_char e fnt rq ch acc w
        = (Inr (images @ [img], max mh (img_height fnt rq ch), tw + img_width fnt rq ch), w)"
    using g assms(1) acc by (simp add: render_char_def)
  moreover have "\<exists>acc'. render_chars e fnt rq chs
       (images @ [img], max mh (img_height fnt rq ch), tw + img_width fnt rq ch) w
     = (Inr acc', w)"
    using Cons.prems by (intro Cons.IH) simp
  ultimately show ?case by simp
qed

lemma spritesheet_run_completes:
  assumes "export_type rq = ''spritesheet''" and "bg_type rq = ''transparent''"
    and "characters rq \<noteq> []"
    and "truetype e (font_path rq) (font_size rq) = Inr fnt"
    and "makedirs e (output_folder rq) = None"
    and "\<forall>p img. write_error e p img = None"
    and "\<forall>ch \<in> set (characters rq). 0 \<le> img_width fnt rq ch \<and> 0 \<le> img_height fnt rq ch"
    and "lower (snd (splitext (join (output_folder rq)
           (fst (validate_spritesheet_name (spritesheet_name rq) w))))) = ''.png''"
  shows "fst (render_font e rq w) = Inr ()"
proof -
  obtain name w1 where v: "validate_spritesheet_name (spritesheet_name rq) w = (name, w1)"
    by (cases "validate_spritesheet_name (spritesheet_name rq) w")
  have sep: "export_type rq \<noteq> ''separate''" using assms(1) by simp
  obtain acc where "render_chars e fnt rq (characters rq) ([], 0, 0) w1 = (Inr acc, w1)"
    using render_chars_retain_completes [OF sep assms(7)] by blast
  then obtain images mh tw where
    loop: "render_chars e fnt rq (characters rq) ([], 0, 0) w1 = (Inr (images, mh, tw), w1)"
    by (cases acc) auto
  note r = render_chars_sheet [OF assms(1,3) loop]
  note s = new_spritesheet_succeeds [OF assms(1,3) loop]
  obtain sheet where
    p: "paste_images \<lparr>mode = RGBA, width = tw, height = mh, pixels = (\<lambda>p. background rq)\<rparr>
          0 images = Inr sheet"
    using transparent_paste_succeeds [OF assms(2) r(2)] by blast
  have "\<exists>w3. save e sheet (join (output_folder rq) name) w1 = (Inr (), w3)"
    using assms(6,8) v by (simp add: save_def Let_def)
  then have "fst (finish e rq name (images, mh, tw) w1) = Inr ()"
    using assms(1) r(5) s p by (auto simp: finish_def export_spritesheet_def)
  then show ?thesis using assms(1,4,5) v loop by (simp add: render_font_def)
qed

end
